theory Spec2Isabelle
  imports Main "HOL-Library.AList" "HOL-Library.Word" "HOL-Library.Multiset" "HOL-Library.Sublist"
begin

section \<open>Python values and dictionaries\<close>

text \<open>
  The tools of \<^verbatim>\<open>agent.py\<close> exchange plain Python data: strings, booleans, lists and
  dictionaries. A Python \<^verbatim>\<open>str\<close> is a sequence of code points, U+0000 to U+10FFFF, the
  surrogate code points U+D800 to U+DFFF among them; it is modelled as the list of its code
  points. \<open>str\<close> gives the Python string of a literal of the program text. A \<^verbatim>\<open>dict\<close>
  keeps its keys in insertion order, so it is an association list: assigning to a key that
  is present replaces the value in place, assigning to a new key appends it
  (\<^const>\<open>AList.update\<close>). Logging is not modelled.
\<close>

type_synonym pystr = "nat list"

definition str :: "string \<Rightarrow> pystr" where
  "str s = map of_char s"

datatype pyval =
    PNone
  | PBool bool
  | PInt int
  | PStr pystr
  | PList "pyval list"
  | PDict "(pystr \<times> pyval) list"

type_synonym pydict = "(pystr \<times> pyval) list"

datatype pyexc = KeyError pystr | TypeError pystr

text \<open>Truth value testing, as \<^verbatim>\<open>not x\<close> and \<^verbatim>\<open>if x\<close> apply it.\<close>

fun truthy :: "pyval \<Rightarrow> bool" where
  "truthy PNone = False"
| "truthy (PBool b) = b"
| "truthy (PInt i) = (i \<noteq> 0)"
| "truthy (PStr s) = (s \<noteq> [])"
| "truthy (PList xs) = (xs \<noteq> [])"
| "truthy (PDict kvs) = (kvs \<noteq> [])"

text \<open>\<^verbatim>\<open>k in d\<close>, \<^verbatim>\<open>d[k] = v\<close>, \<^verbatim>\<open>d[k]\<close> and \<^verbatim>\<open>d.get(k, default)\<close>.\<close>

definition contains :: "('k \<times> 'v) list \<Rightarrow> 'k \<Rightarrow> bool" where
  "contains d k = (map_of d k \<noteq> None)"

definition setitem :: "('k \<times> 'v) list \<Rightarrow> 'k \<Rightarrow> 'v \<Rightarrow> ('k \<times> 'v) list" where
  "setitem d k v = AList.update k v d"

definition getitem :: "(pystr \<times> 'v) list \<Rightarrow> pystr \<Rightarrow> pyexc + 'v" where
  "getitem d k = (case map_of d k of None \<Rightarrow> Inl (KeyError k) | Some v \<Rightarrow> Inr v)"

definition dict_get :: "('k \<times> 'v) list \<Rightarrow> 'k \<Rightarrow> 'v \<Rightarrow> 'v" where
  "dict_get d k dflt = (case map_of d k of None \<Rightarrow> dflt | Some v \<Rightarrow> v)"

section \<open>The session state\<close>

text \<open>
  \<^verbatim>\<open>tool_context.state\<close> holds the keys \<^verbatim>\<open>repo_url\<close>, \<^verbatim>\<open>repo_owner\<close>, \<^verbatim>\<open>repo_name\<close>,
  \<^verbatim>\<open>repo_path\<close> and \<^verbatim>\<open>repository_analysis\<close>; a key that was never set is \<^const>\<open>None\<close>.
  The store \<^verbatim>\<open>repository_analysis\<close> maps a relative path to the dictionary of its details
  (\<^verbatim>\<open>sql_statements\<close>, \<^verbatim>\<open>scanned\<close>).
\<close>

type_synonym store = "(pystr \<times> pydict) list"

record session =
  repo_url :: "pystr option"
  repo_owner :: "pystr option"
  repo_name :: "pystr option"
  repo_path :: "pystr option"
  repository_analysis :: "store option"

text \<open>
  \<^verbatim>\<open>tool_context.state['repository_analysis'][path][field] = v\<close>: the two subscriptions
  raise \<^verbatim>\<open>KeyError\<close> when \<^verbatim>\<open>path\<close> is not in the store.
\<close>

definition set_detail :: "store \<Rightarrow> pystr \<Rightarrow> pystr \<Rightarrow> pyval \<Rightarrow> pyexc + store" where
  "set_detail ra path field v =
     (case getitem ra path of
        Inl e \<Rightarrow> Inl e
      | Inr details \<Rightarrow> Inr (setitem ra path (setitem details field v)))"

section \<open>The write operations\<close>

text \<open>
  Every tool returns a dictionary with a \<^verbatim>\<open>status\<close> and a \<^verbatim>\<open>message\<close>. The model returns
  that dictionary together with the session state the call leaves, or the exception that
  escapes the call. The parameter \<^verbatim>\<open>sql_statements\<close> is a list, as it is annotated; its
  elements are not checked.
\<close>

definition save_sql_statements ::
  "pystr \<Rightarrow> pyval list \<Rightarrow> session \<Rightarrow> pyexc + (pydict \<times> session)" where
  "save_sql_statements relative_file_path sql_statements st =
     (case repository_analysis st of
        None \<Rightarrow>
          Inr ([(str ''status'', PStr (str ''failure'')),
                (str ''message'', PStr (str ''Error: 'repository_analysis' not found in tool_context.state. Cannot save SQL statement.''))],
               st)
      | Some ra \<Rightarrow>
          (let ra1 = (if \<not> contains ra relative_file_path
                      then setitem ra relative_file_path
                             [(str ''sql_statements'', PList []), (str ''scanned'', PBool False)]
                      else ra)
           in case set_detail ra1 relative_file_path (str ''sql_statements'') (PList sql_statements) of
                Inl e \<Rightarrow> Inl e
              | Inr ra2 \<Rightarrow>
                 (case set_detail ra2 relative_file_path (str ''scanned'') (PBool True) of
                    Inl e \<Rightarrow> Inl e
                  | Inr ra3 \<Rightarrow>
                      Inr ([(str ''status'', PStr (str ''success'')), (str ''message'', PStr (str ''statement saved''))],
                           st\<lparr>repository_analysis := Some ra3\<rparr>))))"

definition mark_file_as_scanned :: "pystr \<Rightarrow> session \<Rightarrow> pyexc + (pydict \<times> session)" where
  "mark_file_as_scanned relative_file_path st =
     (case repository_analysis st of
        None \<Rightarrow>
          Inr ([(str ''status'', PStr (str ''failure'')),
                (str ''message'', PStr (str ''Error: 'repository_analysis' not found in tool_context.state. Cannot save mark file as scanned.''))],
               st)
      | Some ra \<Rightarrow>
          (let ra1 = (if \<not> contains ra relative_file_path
                      then setitem ra relative_file_path
                             [(str ''sql_statements'', PList []), (str ''scanned'', PBool True)]
                      else ra)
           in case set_detail ra1 relative_file_path (str ''scanned'') (PBool True) of
                Inl e \<Rightarrow> Inl e
              | Inr ra2 \<Rightarrow>
                  Inr ([(str ''status'', PStr (str ''success'')),
                        (str ''message'', PStr (relative_file_path @ str '' marked as scanned.''))],
                       st\<lparr>repository_analysis := Some ra2\<rparr>)))"

section \<open>The completion check\<close>

text \<open>
  The loop over \<^verbatim>\<open>repository_analysis.items()\<close>: it returns at the first entry whose
  \<^verbatim>\<open>details.get('scanned', False)\<close> is false, and falls through to the final
  \<^verbatim>\<open>return\<close> when no entry is.
\<close>

fun scan_items :: "store \<Rightarrow> pydict" where
  "scan_items [] =
     [(str ''status'', PStr (str ''success'')), (str ''message'', PStr (str ''All files have been scanned.'')),
      (str ''all_files_scanned'', PBool True)]"
| "scan_items ((file_path, details) # rest) =
     (if \<not> truthy (dict_get details (str ''scanned'') (PBool False))
      then [(str ''status'', PStr (str ''success'')), (str ''message'', PStr (str ''Not all files have been scanned.'')),
            (str ''all_files_scanned'', PBool False)]
      else scan_items rest)"

definition are_all_files_scanned :: "session \<Rightarrow> pydict" where
  "are_all_files_scanned st =
     (case repository_analysis st of
        None \<Rightarrow>
          [(str ''status'', PStr (str ''failure'')),
           (str ''message'', PStr (str ''Error: 'repository_analysis' not found in tool_context.state. Cannot determine if all files were scanned.'')),
           (str ''all_files_scanned'', PBool False)]
      | Some ra \<Rightarrow>
          if ra = []
          then [(str ''status'', PStr (str ''success'')), (str ''message'', PStr (str ''No files to scan.'')),
                (str ''all_files_scanned'', PBool True)]
          else scan_items ra)"

section \<open>Example sessions\<close>

text \<open>
  A session as \<^verbatim>\<open>clone_git_repo\<close> leaves it, with the store given: the concrete
  sessions the properties below are evaluated on.
\<close>

definition example_session :: "store option \<Rightarrow> session" where
  "example_session ra =
     \<lparr>repo_url = Some (str ''git@github.com:acme/shop.git''), repo_owner = Some (str ''acme''),
      repo_name = Some (str ''shop''), repo_path = Some (str ''/tmp/repo_acme_shop_k3''),
      repository_analysis = ra\<rparr>"

section \<open>The file system\<close>

text \<open>
  A node of the file system, as the directory that holds it lists it: a regular file with
  its bytes; a directory with its entries by name, in the order \<^verbatim>\<open>os.scandir\<close> yields
  them; a symbolic link to a regular file, with the bytes of its target; a symbolic link to
  a directory, with the entries of its target; a symbolic link whose target does not exist;
  a special file (a FIFO, a socket or a device). The file system maps a path to the node it
  names, if there is one. Every directory can be read: a directory that cannot, which
  \<^verbatim>\<open>os.walk\<close> passes over, is not modelled.
\<close>

datatype fsnode =
    File "8 word list"
  | Dir "(pystr \<times> fsnode) list"
  | FileLink "8 word list"
  | DirLink "(pystr \<times> fsnode) list"
  | DanglingLink
  | Special

type_synonym filesystem = "pystr \<Rightarrow> fsnode option"

text \<open>
  \<^verbatim>\<open>os.path.exists\<close>, \<^verbatim>\<open>os.path.isdir\<close> and \<^verbatim>\<open>os.path.isfile\<close> follow symbolic links, and
  so does the \<^verbatim>\<open>is_dir()\<close> of a directory entry, by which \<^verbatim>\<open>os.walk\<close> sorts the names of a
  directory: a link to a directory is a directory, a link to a regular file is a regular
  file, and a dangling link does not exist. \<open>listing\<close> is what \<^verbatim>\<open>os.scandir\<close> yields for a
  directory, and \<open>contents\<close> the bytes that reading a regular file returns.
\<close>

fun node_exists :: "fsnode \<Rightarrow> bool" where
  "node_exists DanglingLink = False"
| "node_exists node = True"

fun isdir :: "fsnode \<Rightarrow> bool" where
  "isdir (Dir es) = True"
| "isdir (DirLink es) = True"
| "isdir node = False"

fun listing :: "fsnode \<Rightarrow> (pystr \<times> fsnode) list option" where
  "listing (Dir es) = Some es"
| "listing (DirLink es) = Some es"
| "listing node = None"

fun contents :: "fsnode \<Rightarrow> 8 word list option" where
  "contents (File bs) = Some bs"
| "contents (FileLink bs) = Some bs"
| "contents node = None"

text \<open>
  \<^verbatim>\<open>os.walk(top)\<close>, top-down: it yields the directory, the names of its entries that are
  directories and the names of all its other entries, whatever they are, and then walks the
  directories still named in the list it has yielded, except the symbolic links among them
  (\<^verbatim>\<open>followlinks\<close> is false). The caller may edit that list before the walk resumes;
  \<open>prune\<close> is that edit. The directory is given by the names that lead to it from \<open>top\<close>.
\<close>

function walk ::
  "(pystr list \<Rightarrow> pystr list) \<Rightarrow> pystr list \<Rightarrow> (pystr \<times> fsnode) list
     \<Rightarrow> (pystr list \<times> pystr list \<times> pystr list) list" where
  "walk prune root entries =
     (let dirs = [name. (name, node) \<leftarrow> entries, isdir node];
          nondirs = [name. (name, node) \<leftarrow> entries, \<not> isdir node]
      in (root, dirs, nondirs) #
         concat (map (\<lambda>dirname.
                        case map_of entries dirname of
                          Some (Dir es) \<Rightarrow> walk prune (root @ [dirname]) es
                        | _ \<Rightarrow> [])
                     (prune dirs)))"
  by pat_completeness auto
termination
proof (relation "measure (\<lambda>(prune, root, entries). size (Dir entries))")
  show "wf (measure (\<lambda>(prune, root, entries). size (Dir entries)))"
    by simp
next
  fix prune :: "pystr list \<Rightarrow> pystr list" and root :: "pystr list"
    and entries :: "(pystr \<times> fsnode) list" and dirname node es
  assume "map_of entries dirname = Some node" and "node = Dir es"
  then have "size (Dir es) < size (Dir entries)"
    by (induction entries) (auto split: if_splits)
  then show "((prune, root @ [dirname], es), (prune, root, entries))
               \<in> measure (\<lambda>(prune, root, entries). size (Dir entries))"
    by simp
qed

declare walk.simps [simp del]

text \<open>
  \<^verbatim>\<open>os.path.relpath(os.path.join(root, file), local_repo_path)\<close> for a directory \<open>root\<close>
  that the walk of \<^verbatim>\<open>local_repo_path\<close> yields: the names from \<^verbatim>\<open>local_repo_path\<close> down to
  the file, joined by the separator.
\<close>

fun join_names :: "pystr list \<Rightarrow> pystr" where
  "join_names [] = []"
| "join_names [name] = name"
| "join_names (name # names) = name @ str ''/'' @ join_names names"

definition relpath :: "pystr list \<Rightarrow> pystr \<Rightarrow> pystr" where
  "relpath root file = join_names (root @ [file])"

text \<open>\<^verbatim>\<open>str(n)\<close> for a length.\<close>

fun str_nat :: "nat \<Rightarrow> string" where
  "str_nat n =
     (if n < 10 then [''0123456789'' ! n]
      else str_nat (n div 10) @ [''0123456789'' ! (n mod 10)])"

declare str_nat.simps [simp del]

text \<open>
  The body of the loop over the walk: \<^verbatim>\<open>.git\<close> is removed from the directory names, and
  every file of the directory is entered in the store and appended to \<^verbatim>\<open>files_to_scan\<close>.
\<close>

definition prune_git :: "pystr list \<Rightarrow> pystr list" where
  "prune_git dirnames = (if str ''.git'' \<in> set dirnames then remove1 (str ''.git'') dirnames else dirnames)"

definition walk_files :: "(pystr \<times> fsnode) list \<Rightarrow> pystr list" where
  "walk_files entries =
     concat (map (\<lambda>(root, dirnames, files). map (relpath root) files) (walk prune_git [] entries))"

text \<open>The same files, each by the names that lead to it, for the walk started below \<open>root\<close>.\<close>

definition walk_names :: "pystr list \<Rightarrow> (pystr \<times> fsnode) list \<Rightarrow> pystr list list" where
  "walk_names root entries =
     concat (map (\<lambda>(root, dirnames, files). map (\<lambda>file. root @ [file]) files)
               (walk prune_git root entries))"

definition seed :: "store \<Rightarrow> pystr list \<Rightarrow> store" where
  "seed ra relative_paths =
     foldl (\<lambda>ra relative_path.
              setitem ra relative_path [(str ''sql_statements'', PList []), (str ''scanned'', PBool False)])
       ra relative_paths"

definition list_repo_files :: "filesystem \<Rightarrow> session \<Rightarrow> pyexc + (pydict \<times> session)" where
  "list_repo_files fs st =
     (case repo_path st of
        None \<Rightarrow> Inl (TypeError (str ''stat: path should be string, bytes, os.PathLike or integer, not NoneType''))
      | Some local_repo_path \<Rightarrow>
         (case fs local_repo_path of
            None \<Rightarrow>
              Inr ([(str ''status'', PStr (str ''failure'')),
                    (str ''message'', PStr (str ''Error: Path does not exist: '' @ local_repo_path))],
                   st)
          | Some node \<Rightarrow>
              if \<not> node_exists node
              then Inr ([(str ''status'', PStr (str ''failure'')),
                         (str ''message'', PStr (str ''Error: Path does not exist: '' @ local_repo_path))],
                        st)
              else
                (case listing node of
                   None \<Rightarrow>
                     Inr ([(str ''status'', PStr (str ''failure'')),
                           (str ''message'', PStr (str ''Error: Path is not a directory: '' @ local_repo_path))],
                          st)
                 | Some entries \<Rightarrow>
                     (let ra = (case repository_analysis st of None \<Rightarrow> [] | Some ra \<Rightarrow> ra);
                          files_to_scan = walk_files entries
                      in Inr ([(str ''status'', PStr (str ''success'')),
                               (str ''files'', PList (map PStr files_to_scan)),
                               (str ''message'', PStr (str ''Fount '' @ str (str_nat (length files_to_scan)) @
                                                   str '' files to scan. File list stored in agent context.''))],
                              st\<lparr>repository_analysis := Some (seed ra files_to_scan)\<rparr>)))))"

text \<open>
  What the walk lists as files, by recursion on the tree: every entry that is not a
  directory, whether a regular file, a symbolic link to a file, a dangling link or a special
  file, that lies in no directory named \<^verbatim>\<open>.git\<close> and below no symbolic link; each with the
  names that lead to it.
\<close>

fun listed_below :: "fsnode \<Rightarrow> pystr list list" where
  "listed_below (Dir es) =
     concat (map (\<lambda>e. if isdir (snd e) \<and> fst e = str ''.git'' then []
                       else map ((#) (fst e)) (listed_below (snd e))) es)"
| "listed_below (DirLink es) = []"
| "listed_below node = [[]]"

fun count_listed :: "fsnode \<Rightarrow> nat" where
  "count_listed (Dir es) =
     sum_list (map (\<lambda>e. if isdir (snd e) \<and> fst e = str ''.git'' then 0 else count_listed (snd e)) es)"
| "count_listed (DirLink es) = 0"
| "count_listed node = 1"

text \<open>
  What the specification counts: the regular files under the root that lie in no directory
  named \<^verbatim>\<open>.git\<close>. The two counts agree on a plain tree, one that holds only regular files
  and directories.
\<close>

fun count_regular_files :: "fsnode \<Rightarrow> nat" where
  "count_regular_files (File bs) = 1"
| "count_regular_files (Dir es) =
     sum_list (map (\<lambda>e. if isdir (snd e) \<and> fst e = str ''.git'' then 0
                         else count_regular_files (snd e)) es)"
| "count_regular_files node = 0"

fun plain_tree :: "fsnode \<Rightarrow> bool" where
  "plain_tree (File bs) = True"
| "plain_tree (Dir es) = (\<forall>e \<in> set es. plain_tree (snd e))"
| "plain_tree node = False"

text \<open>
  In a directory no two entries have the same name, and a name contains no separator.
\<close>

fun wf_node :: "fsnode \<Rightarrow> bool" where
  "wf_node (Dir es) =
     (distinct (map fst es) \<and> (\<forall>e \<in> set es. 0x2F \<notin> set (fst e) \<and> wf_node (snd e)))"
| "wf_node node = True"

text \<open>The keys of the store; a store that was never set has none.\<close>

definition store_keys :: "session \<Rightarrow> pystr list" where
  "store_keys st = (case repository_analysis st of None \<Rightarrow> [] | Some ra \<Rightarrow> map fst ra)"

text \<open>
  Invariant I1 speaks of the paths that existed under the repository root: every entry of
  the root directory and of every directory below it, the contents of \<^verbatim>\<open>.git\<close> included.
\<close>

fun paths_below :: "fsnode \<Rightarrow> pystr list list" where
  "paths_below (Dir es) =
     concat (map (\<lambda>e. [fst e] # map ((#) (fst e)) (paths_below (snd e))) es)"
| "paths_below node = []"

definition existing_paths :: "(pystr \<times> fsnode) list \<Rightarrow> pystr list" where
  "existing_paths entries = map join_names (paths_below (Dir entries))"

section \<open>Sequences of tool calls\<close>

text \<open>
  The agent calls the tools in any order and with any arguments. A call that raises has not
  changed the session state.
\<close>

datatype tool_call =
    ListRepoFiles
  | SaveSqlStatements pystr "pyval list"
  | MarkFileAsScanned pystr

fun call :: "filesystem \<Rightarrow> tool_call \<Rightarrow> session \<Rightarrow> pyexc + (pydict \<times> session)" where
  "call fs ListRepoFiles st = list_repo_files fs st"
| "call fs (SaveSqlStatements p s) st = save_sql_statements p s st"
| "call fs (MarkFileAsScanned p) st = mark_file_as_scanned p st"

fun run :: "filesystem \<Rightarrow> tool_call list \<Rightarrow> session \<Rightarrow> session" where
  "run fs [] st = st"
| "run fs (c # cs) st =
     (case call fs c st of
        Inl e \<Rightarrow> run fs cs st
      | Inr (res, st') \<Rightarrow> run fs cs st')"

fun names_existing :: "(pystr \<times> fsnode) list \<Rightarrow> tool_call \<Rightarrow> bool" where
  "names_existing entries ListRepoFiles = True"
| "names_existing entries (SaveSqlStatements p s) = (p \<in> set (existing_paths entries))"
| "names_existing entries (MarkFileAsScanned p) = (p \<in> set (existing_paths entries))"

definition example_tree :: "(pystr \<times> fsnode) list" where
  "example_tree =
     [(str ''a.py'', File []),
      (str ''.git'', Dir [(str ''HEAD'', File [])]),
      (str ''src'', Dir [(str ''m.py'', File []), (str ''.git'', File []),
                         (str ''sub'', Dir [(str ''q.sql'', File [])])])]"

definition example_fs :: filesystem where
  "example_fs = [str ''/tmp/repo_acme_shop_k3'' \<mapsto> Dir example_tree]"

text \<open>A root that holds the single file \<^verbatim>\<open>x.txt\<close>.\<close>

definition single_file_fs :: filesystem where
  "single_file_fs = [str ''/tmp/repo_acme_shop_k3'' \<mapsto> Dir [(str ''x.txt'', File [])]]"

text \<open>
  A root that holds the regular file \<^verbatim>\<open>x.txt\<close>, a FIFO and a dangling symbolic link.
\<close>

definition mixed_fs :: filesystem where
  "mixed_fs =
     [str ''/tmp/repo_acme_shop_k3'' \<mapsto>
        Dir [(str ''x.txt'', File []), (str ''pipe'', Special), (str ''gone'', DanglingLink)]]"

section \<open>The report exporter\<close>

text \<open>
  \<^verbatim>\<open>json.dump\<close> with its default settings: \<^verbatim>\<open>ensure_ascii\<close> escapes every character
  outside the printable ASCII range, the separators are \<^verbatim>\<open>", "\<close> and \<^verbatim>\<open>": "\<close>, and the keys
  of a dictionary are written in insertion order. The text written is ASCII, so the text of
  the file is a \<^typ>\<open>string\<close>, one character for each byte.

  A code point in the printable range stands for itself; backslash, the quotation mark and
  five control characters have a two-character escape; any other code point up to U+FFFF is
  written as \<^verbatim>\<open>\uXXXX\<close>, and a code point above U+FFFF as the two escapes of its UTF-16
  surrogate pair, \<^verbatim>\<open>0xd800 | ((n >> 10) & 0x3ff)\<close> and \<^verbatim>\<open>0xdc00 | (n & 0x3ff)\<close> for
  \<^verbatim>\<open>n = c - 0x10000\<close>.
\<close>

definition hex4 :: "nat \<Rightarrow> string" where
  "hex4 n =
     [''0123456789abcdef'' ! (n div 4096 mod 16), ''0123456789abcdef'' ! (n div 256 mod 16),
      ''0123456789abcdef'' ! (n div 16 mod 16), ''0123456789abcdef'' ! (n mod 16)]"

definition escape_char :: "nat \<Rightarrow> string" where
  "escape_char c =
     (if c = 0x5C then [CHR 0x5C, CHR 0x5C]
      else if c = 0x22 then [CHR 0x5C, CHR 0x22]
      else if c = 0x08 then [CHR 0x5C, CHR ''b'']
      else if c = 0x0C then [CHR 0x5C, CHR ''f'']
      else if c = 0x0A then [CHR 0x5C, CHR ''n'']
      else if c = 0x0D then [CHR 0x5C, CHR ''r'']
      else if c = 0x09 then [CHR 0x5C, CHR ''t'']
      else if 0x20 \<le> c \<and> c \<le> 0x7E then [char_of c]
      else if c < 0x10000 then [CHR 0x5C, CHR ''u''] @ hex4 c
      else [CHR 0x5C, CHR ''u''] @ hex4 (0xD800 + (c - 0x10000) div 1024 mod 1024) @
           [CHR 0x5C, CHR ''u''] @ hex4 (0xDC00 + (c - 0x10000) mod 1024))"

definition encode_str :: "pystr \<Rightarrow> string" where
  "encode_str s = [CHR 0x22] @ concat (map escape_char s) @ [CHR 0x22]"




text \<open>
  \<^verbatim>\<open>json.dump(obj, fp)\<close> writes the chunks that the encoder yields, one after the other,
  until the encoder is exhausted or raises. What it leaves is the text written and the text
  of the exception raised, if one was. \<open>atom\<close> is the chunk of a value that is written in
  one piece.
\<close>

type_synonym written = "string \<times> pystr option"



definition then_write :: "written \<Rightarrow> written \<Rightarrow> written" where
  "then_write w1 w2 = (case snd w1 of Some e \<Rightarrow> w1 | None \<Rightarrow> (fst w1 @ fst w2, snd w2))"


text \<open>\<^verbatim>\<open>os.path.join(a, b)\<close> on a POSIX system.\<close>

definition os_path_join :: "pystr \<Rightarrow> pystr \<Rightarrow> pystr" where
  "os_path_join a b =
     (if b \<noteq> [] \<and> hd b = 0x2F then b
      else if a = [] \<or> last a = 0x2F then a @ b
      else a @ str ''/'' @ b)"





section \<open>Reading the artifact back\<close>

text \<open>
  The specification asks that parsing the exported lines gives the store back. The parser
  meant is a reader of line-delimited JSON for the records of tracked files: one object per
  line, with \<^verbatim>\<open>file_path\<close> a string, \<^verbatim>\<open>sql_statements\<close> a list of strings and
  \<^verbatim>\<open>scanned\<close> a boolean. It is written here from the JSON grammar, not from the exporter,
  for a text in ASCII, as the artifact is: a character outside ASCII is refused.
\<close>

fun skip_ws :: "string \<Rightarrow> string" where
  "skip_ws [] = []"
| "skip_ws (c # cs) = (if c = CHR '' '' \<or> c = CHR 0x09 then skip_ws cs else c # cs)"









text \<open>The token \<open>t\<close> after white space.\<close>

definition expect :: "string \<Rightarrow> string \<Rightarrow> string option" where
  "expect t s =
     (let s' = skip_ws s
      in if take (length t) s' = t then Some (drop (length t) s') else None)"






text \<open>
  The details of a tracked file as the specification's data model has them: the statements,
  a sequence of strings, and the flag, a boolean.
\<close>

fun is_str :: "pyval \<Rightarrow> bool" where
  "is_str (PStr s) = True"
| "is_str v = False"

fun tracked_file :: "pydict \<Rightarrow> bool" where
  "tracked_file [(k1, PList xs), (k2, PBool b)] =
     (k1 = str ''sql_statements'' \<and> k2 = str ''scanned'' \<and> list_all is_str xs)"
| "tracked_file d = False"

text \<open>A call that records only strings, as the statements of the data model are.\<close>

fun strings_recorded :: "tool_call \<Rightarrow> bool" where
  "strings_recorded (SaveSqlStatements p s) = list_all is_str s"
| "strings_recorded c = True"











section \<open>The content reader\<close>

text \<open>
  The file is opened with \<^verbatim>\<open>encoding='utf-8', errors='ignore'\<close> and read whole. The UTF-8
  codec reports a malformed sequence to the error handler, which raises (\<^verbatim>\<open>strict\<close>),
  skips the sequence (\<^verbatim>\<open>ignore\<close>) or puts U+FFFD in its place (\<^verbatim>\<open>replace\<close>).
\<close>

datatype errors = Strict | Ignore | Replace

definition is_continuation :: "8 word \<Rightarrow> bool" where
  "is_continuation b = (0x80 \<le> b \<and> b \<le> 0xBF)"

text \<open>
  One step of the decoder on a non-empty input: the code point decoded, or nothing for a
  malformed sequence, and the number of bytes the step covers.
\<close>

fun decode_one :: "8 word list \<Rightarrow> nat option \<times> nat" where
  "decode_one [] = (None, 1)"
| "decode_one (b0 # rest) =
     (if b0 < 0x80 then (Some (unat b0), 1)
      else if b0 < 0xC2 then (None, 1)
      else if b0 < 0xE0 then
        (case rest of
           [] \<Rightarrow> (None, 1)
         | b1 # rest1 \<Rightarrow>
             if \<not> is_continuation b1 then (None, 1)
             else (Some ((unat b0 - 0xC0) * 64 + (unat b1 - 0x80)), 2))
      else if b0 < 0xF0 then
        (case rest of
           [] \<Rightarrow> (None, 1)
         | b1 # rest1 \<Rightarrow>
             if \<not> is_continuation b1 \<or> (b0 = 0xE0 \<and> b1 < 0xA0) \<or> (b0 = 0xED \<and> 0xA0 \<le> b1)
             then (None, 1)
             else
               (case rest1 of
                  [] \<Rightarrow> (None, 2)
                | b2 # rest2 \<Rightarrow>
                    if \<not> is_continuation b2 then (None, 2)
                    else (Some ((unat b0 - 0xE0) * 4096 + (unat b1 - 0x80) * 64 + (unat b2 - 0x80)), 3)))
      else if b0 < 0xF5 then
        (case rest of
           [] \<Rightarrow> (None, 1)
         | b1 # rest1 \<Rightarrow>
             if \<not> is_continuation b1 \<or> (b0 = 0xF0 \<and> b1 < 0x90) \<or> (b0 = 0xF4 \<and> 0x90 \<le> b1)
             then (None, 1)
             else
               (case rest1 of
                  [] \<Rightarrow> (None, 2)
                | b2 # rest2 \<Rightarrow>
                    if \<not> is_continuation b2 then (None, 2)
                    else
                      (case rest2 of
                         [] \<Rightarrow> (None, 3)
                       | b3 # rest3 \<Rightarrow>
                           if \<not> is_continuation b3 then (None, 3)
                           else (Some ((unat b0 - 0xF0) * 262144 + (unat b1 - 0x80) * 4096 +
                                       (unat b2 - 0x80) * 64 + (unat b3 - 0x80)), 4))))
      else (None, 1))"

definition prepend :: "nat \<Rightarrow> pystr + pystr \<Rightarrow> pystr + pystr" where
  "prepend c r = (case r of Inl e \<Rightarrow> Inl e | Inr cs \<Rightarrow> Inr (c # cs))"

text \<open>\<^verbatim>\<open>bytes.decode('utf-8', errors)\<close>: the text, or the message of the \<^verbatim>\<open>UnicodeDecodeError\<close>.\<close>

function utf8_decode :: "errors \<Rightarrow> 8 word list \<Rightarrow> pystr + pystr" where
  "utf8_decode h [] = Inr []"
| "utf8_decode h (b # bs) =
     (case decode_one (b # bs) of
        (Some c, n) \<Rightarrow> prepend c (utf8_decode h (drop n (b # bs)))
      | (None, n) \<Rightarrow>
          (case h of
             Strict \<Rightarrow> Inl (str ''utf-8 codec can't decode bytes'')
           | Ignore \<Rightarrow> utf8_decode h (drop n (b # bs))
           | Replace \<Rightarrow> prepend 0xFFFD (utf8_decode h (drop n (b # bs)))))"
  by pat_completeness auto
termination
proof -
  have pos: "0 < snd (decode_one bs)" for bs
    by (cases bs) (simp_all split: list.splits)
  have smaller: "((h, drop y (b # bs)), h, b # bs) \<in> measure (\<lambda>(h, bs). length bs)"
    if "(x, y) = decode_one (b # bs)" for h :: errors and b bs x y
  proof -
    from that pos [of "b # bs"] have "0 < y" by (metis snd_conv)
    then show ?thesis by simp
  qed
  show ?thesis
  proof (relation "measure (\<lambda>(h, bs). length bs)")
    show "wf (measure (\<lambda>(h, bs). length bs))" by simp
  qed (rule smaller, assumption)+
qed

text \<open>
  Text mode with the default \<^verbatim>\<open>newline=None\<close> translates \<^verbatim>\<open>\r\n\<close> and \<^verbatim>\<open>\r\<close> to
  \<^verbatim>\<open>\n\<close> in the text decoded.
\<close>

fun universal_newlines :: "pystr \<Rightarrow> pystr" where
  "universal_newlines [] = []"
| "universal_newlines [c] = (if c = 13 then [10] else [c])"
| "universal_newlines (c # d # cs) =
     (if c = 13 \<and> d = 10 then 10 # universal_newlines cs
      else if c = 13 then 10 # universal_newlines (d # cs)
      else c # universal_newlines (d # cs))"

text \<open>
  \<open>io_error\<close> is the text of the exception that opening or reading the file raises, if it
  does: whatever its class, the handler turns it into a failure.
\<close>

definition get_file_content ::
  "filesystem \<Rightarrow> pystr option \<Rightarrow> pystr \<Rightarrow> session \<Rightarrow> pydict" where
  "get_file_content fs io_error relative_file_path st =
     (if repo_path st = None \<or> repo_path st = Some []
      then [(str ''status'', PStr (str ''failure'')),
            (str ''message'', PStr (str ''Error: 'repo_path' not found in tool_context.state. Cannot resolve relative path.''))]
      else
        (let absolute_file_path = os_path_join (the (repo_path st)) relative_file_path
         in case fs absolute_file_path of
              None \<Rightarrow>
                [(str ''status'', PStr (str ''failure'')),
                 (str ''message'', PStr (str ''Error: File does not exist: '' @ absolute_file_path))]
            | Some node \<Rightarrow>
                if \<not> node_exists node
                then [(str ''status'', PStr (str ''failure'')),
                      (str ''message'', PStr (str ''Error: File does not exist: '' @ absolute_file_path))]
                else
                  (case contents node of
                     None \<Rightarrow>
                       [(str ''status'', PStr (str ''failure'')),
                        (str ''message'', PStr (str ''Error: Path is not a file: '' @ absolute_file_path))]
                   | Some bytes \<Rightarrow>
                       (case io_error of
                          Some e \<Rightarrow>
                            [(str ''status'', PStr (str ''failure'')),
                             (str ''message'', PStr (str ''Error reading file '' @ absolute_file_path @ str '': '' @ e))]
                        | None \<Rightarrow>
                            (case utf8_decode Ignore bytes of
                               Inl e \<Rightarrow>
                                 [(str ''status'', PStr (str ''failure'')),
                                  (str ''message'', PStr (str ''Error reading file '' @ absolute_file_path @ str '': '' @ e))]
                             | Inr decoded \<Rightarrow>
                                 [(str ''status'', PStr (str ''success'')),
                                  (str ''message'', PStr (str ''Successfully read file content.'')),
                                  (str ''content'', PStr (universal_newlines decoded))])))))"

text \<open>
  Two files that are not valid UTF-8: the byte \<^verbatim>\<open>0xFF\<close> between \<^verbatim>\<open>a\<close> and \<^verbatim>\<open>b\<close>, and
  the same with a carriage return and a line feed before \<^verbatim>\<open>b\<close>.
\<close>

definition example_bytes_fs :: filesystem where
  "example_bytes_fs =
     [str ''/tmp/repo_acme_shop_k3/notes.txt'' \<mapsto> File [0x61, 0xFF, 0x62],
      str ''/tmp/repo_acme_shop_k3/dos.txt'' \<mapsto> File [0x61, 0xFF, 0x0D, 0x0A, 0x62]]"

section \<open>Properties of the store operations\<close>

subsection \<open>Literals\<close>

lemma str_eq_iff [simp]: "str a = str b \<longleftrightarrow> a = b"
  unfolding str_def by (simp add: inj_on_def)

lemma str_Nil [simp]: "str [] = []"
  by (simp add: str_def)

lemma str_is_Nil [simp]: "str s = [] \<longleftrightarrow> s = []"
  by (simp add: str_def)

lemma str_append [simp]: "str a @ str b = str (a @ b)"
  by (simp add: str_def)

lemma str_append_assoc [simp]: "str a @ str b @ r = str (a @ b) @ r"
  by (simp add: str_def)

lemma str_Cons: "str (c # cs) = of_char c # str cs"
  by (simp add: str_def)

lemma str_slash: "str ''/'' = [47]"
  by (simp add: str_def)

lemma slash_in_str [simp]: "47 \<in> set (str s) \<longleftrightarrow> CHR ''/'' \<in> set s"
proof -
  have "(47 :: nat) = of_char (CHR ''/'')" by simp
  then have "47 \<in> set (str s) \<longleftrightarrow> of_char (CHR ''/'') \<in> (of_char ` set s :: nat set)"
    by (simp only: str_def set_map)
  also have "\<dots> \<longleftrightarrow> CHR ''/'' \<in> set s"
    by (auto simp del: of_char_Char)
  finally show ?thesis .
qed

subsection \<open>Dictionary assignment\<close>

lemma update_absent: "map_of al k = None \<Longrightarrow> AList.update k v al = al @ [(k, v)]"
  by (induction al) (auto split: if_splits)

lemma update_appended:
  "map_of al k = None \<Longrightarrow> AList.update k v (al @ [(k, w)]) = al @ [(k, v)]"
  by (induction al) (auto split: if_splits)

lemma set_detail_present:
  "map_of ra p = Some d \<Longrightarrow>
   set_detail ra p f v = Inr (AList.update p (AList.update f v d) ra)"
  by (simp add: set_detail_def getitem_def setitem_def)

lemma set_detail_appended:
  "map_of ra p = None \<Longrightarrow>
   set_detail (ra @ [(p, d)]) p f v = Inr (ra @ [(p, AList.update f v d)])"
  by (simp add: set_detail_def getitem_def setitem_def update_appended map_add_def)

subsection \<open>What the two writers compute\<close>

text \<open>
  On an initialised store neither writer raises: the entry is present when its fields are
  assigned, either because it was there or because the self-healing insert has just appended it.
\<close>

lemma save_present:
  assumes "repository_analysis st = Some ra" "map_of ra p = Some d"
  shows "save_sql_statements p s st =
     Inr ([(str ''status'', PStr (str ''success'')), (str ''message'', PStr (str ''statement saved''))],
          st\<lparr>repository_analysis := Some (AList.update p
              (AList.update (str ''scanned'') (PBool True) (AList.update (str ''sql_statements'') (PList s) d)) ra)\<rparr>)"
  using assms
  by (simp add: save_sql_statements_def contains_def set_detail_present update_conv')

lemma save_absent:
  assumes "repository_analysis st = Some ra" "map_of ra p = None"
  shows "save_sql_statements p s st =
     Inr ([(str ''status'', PStr (str ''success'')), (str ''message'', PStr (str ''statement saved''))],
          st\<lparr>repository_analysis := Some (ra @ [(p, [(str ''sql_statements'', PList s), (str ''scanned'', PBool True)])])\<rparr>)"
  using assms
  by (simp add: save_sql_statements_def contains_def setitem_def set_detail_appended update_absent)

lemma mark_present:
  assumes "repository_analysis st = Some ra" "map_of ra p = Some d"
  shows "mark_file_as_scanned p st =
     Inr ([(str ''status'', PStr (str ''success'')), (str ''message'', PStr (p @ str '' marked as scanned.''))],
          st\<lparr>repository_analysis := Some (AList.update p (AList.update (str ''scanned'') (PBool True) d) ra)\<rparr>)"
  using assms
  by (simp add: mark_file_as_scanned_def contains_def set_detail_present)

lemma mark_absent:
  assumes "repository_analysis st = Some ra" "map_of ra p = None"
  shows "mark_file_as_scanned p st =
     Inr ([(str ''status'', PStr (str ''success'')), (str ''message'', PStr (p @ str '' marked as scanned.''))],
          st\<lparr>repository_analysis := Some (ra @ [(p, [(str ''sql_statements'', PList []), (str ''scanned'', PBool True)])])\<rparr>)"
  using assms
  by (simp add: mark_file_as_scanned_def contains_def setitem_def set_detail_appended update_absent)

subsection \<open>The completion check\<close>

lemma scan_items_flag:
  "map_of (scan_items ra) (str ''all_files_scanned'') =
     Some (PBool (\<forall>(p, d) \<in> set ra. \<exists>v. map_of d (str ''scanned'') = Some v \<and> truthy v))"
  by (induction ra rule: scan_items.induct) (auto simp: dict_get_def split: option.splits)

lemma scan_items_status: "map_of (scan_items ra) (str ''status'') = Some (PStr (str ''success''))"
  by (induction ra rule: scan_items.induct) auto

text \<open>
  Claim C1. On an initialised store the completion check succeeds and reports
  \<^verbatim>\<open>all_files_scanned = true\<close> exactly when the store is empty or every entry has a
  \<^verbatim>\<open>scanned\<close> field that is true; on the empty store it reports true.
\<close>

theorem are_all_files_scanned_iff:
  assumes "repository_analysis st = Some ra"
  shows "map_of (are_all_files_scanned st) (str ''status'') = Some (PStr (str ''success'')) \<and>
         map_of (are_all_files_scanned st) (str ''all_files_scanned'') =
           Some (PBool (ra = [] \<or> (\<forall>(p, d) \<in> set ra. \<exists>v. map_of d (str ''scanned'') = Some v \<and> truthy v))) \<and>
         (ra = [] \<longrightarrow> map_of (are_all_files_scanned st) (str ''all_files_scanned'') = Some (PBool True))"
  using assms by (auto simp: are_all_files_scanned_def scan_items_flag scan_items_status)

theorem are_all_files_scanned_iff_witness:
  "map_of (are_all_files_scanned
       \<lparr>repo_url = None, repo_owner = None, repo_name = None, repo_path = None,
        repository_analysis = Some [(str ''a.py'', [(str ''sql_statements'', PList []), (str ''scanned'', PBool True)]),
                                    (str ''b.sql'', [(str ''sql_statements'', PList []), (str ''scanned'', PBool False)])]\<rparr>)
     (str ''all_files_scanned'') = Some (PBool False)"
  using are_all_files_scanned_iff [of
       "\<lparr>repo_url = None, repo_owner = None, repo_name = None, repo_path = None,
        repository_analysis = Some [(str ''a.py'', [(str ''sql_statements'', PList []), (str ''scanned'', PBool True)]),
                                    (str ''b.sql'', [(str ''sql_statements'', PList []), (str ''scanned'', PBool False)])]\<rparr>"
       "[(str ''a.py'', [(str ''sql_statements'', PList []), (str ''scanned'', PBool True)]),
                                    (str ''b.sql'', [(str ''sql_statements'', PList []), (str ''scanned'', PBool False)])]"]
  by simp

text \<open>
  Claim C10. If some entry of the store has no \<^verbatim>\<open>scanned\<close> field at all, the completion
  check treats it as unscanned and reports \<^verbatim>\<open>all_files_scanned = false\<close>.
\<close>

theorem missing_scanned_field_counts_as_unscanned:
  assumes "repository_analysis st = Some ra" and "(p, d) \<in> set ra" and "map_of d (str ''scanned'') = None"
  shows "map_of (are_all_files_scanned st) (str ''status'') = Some (PStr (str ''success'')) \<and>
         map_of (are_all_files_scanned st) (str ''all_files_scanned'') = Some (PBool False)"
proof -
  from assms(2) have "ra \<noteq> []" by auto
  moreover from assms(2,3)
  have "\<not> (\<forall>(p, d) \<in> set ra. \<exists>v. map_of d (str ''scanned'') = Some v \<and> truthy v)" by force
  ultimately show ?thesis
    using assms(1) by (simp add: are_all_files_scanned_def scan_items_flag scan_items_status)
qed

theorem missing_scanned_field_counts_as_unscanned_witness:
  "map_of [(str ''sql_statements'', PList [])] (str ''scanned'') = None \<and>
   map_of (are_all_files_scanned
      (example_session (Some [(str ''a.py'', [(str ''sql_statements'', PList []), (str ''scanned'', PBool True)]),
                              (str ''b.sql'', [(str ''sql_statements'', PList [])])])))
     (str ''all_files_scanned'') = Some (PBool False)"
  using missing_scanned_field_counts_as_unscanned [of
      "example_session (Some [(str ''a.py'', [(str ''sql_statements'', PList []), (str ''scanned'', PBool True)]),
                              (str ''b.sql'', [(str ''sql_statements'', PList [])])])"
      "[(str ''a.py'', [(str ''sql_statements'', PList []), (str ''scanned'', PBool True)]),
        (str ''b.sql'', [(str ''sql_statements'', PList [])])]"
      "str ''b.sql''" "[(str ''sql_statements'', PList [])]"]
  by (simp add: example_session_def)

subsection \<open>Recording statements\<close>

text \<open>
  Claim C3. Recording statements \<open>s\<close> for a path \<open>p\<close> that is not in an initialised
  store succeeds and appends the entry \<^verbatim>\<open>{sql_statements: s, scanned: true}\<close> for \<open>p\<close>:
  the store has exactly one more entry, and the entry of every other path is unchanged.
\<close>

theorem save_sql_statements_self_heal:
  assumes "repository_analysis st = Some ra" and "map_of ra p = None"
  shows "\<exists>res ra'.
           save_sql_statements p s st = Inr (res, st\<lparr>repository_analysis := Some ra'\<rparr>) \<and>
           map_of res (str ''status'') = Some (PStr (str ''success'')) \<and>
           ra' = ra @ [(p, [(str ''sql_statements'', PList s), (str ''scanned'', PBool True)])] \<and>
           map_of ra' p = Some [(str ''sql_statements'', PList s), (str ''scanned'', PBool True)] \<and>
           length ra' = length ra + 1 \<and>
           card (dom (map_of ra')) = card (dom (map_of ra)) + 1 \<and>
           (\<forall>q. q \<noteq> p \<longrightarrow> map_of ra' q = map_of ra q)"
proof -
  have fin: "finite (dom (map_of ra))" by (rule finite_dom_map_of)
  have "p \<notin> dom (map_of ra)" using assms(2) by auto
  with fin have "card (insert p (dom (map_of ra))) = card (dom (map_of ra)) + 1" by simp
  then show ?thesis
    using assms by (auto simp: save_absent map_add_def dom_map_of_conv_image_fst image_Un split: option.splits)
qed

theorem save_sql_statements_self_heal_witness:
  "repository_analysis (example_session (Some [(str ''x.txt'', [(str ''sql_statements'', PList []), (str ''scanned'', PBool False)])]))
     = Some [(str ''x.txt'', [(str ''sql_statements'', PList []), (str ''scanned'', PBool False)])] \<and>
   map_of [(str ''x.txt'', [(str ''sql_statements'', PList []), (str ''scanned'', PBool False)])] (str ''y.sql'') = None \<and>
   save_sql_statements (str ''y.sql'') [PStr (str ''INSERT INTO t VALUES (1)'')]
      (example_session (Some [(str ''x.txt'', [(str ''sql_statements'', PList []), (str ''scanned'', PBool False)])])) =
     Inr ([(str ''status'', PStr (str ''success'')), (str ''message'', PStr (str ''statement saved''))],
          example_session (Some [(str ''x.txt'', [(str ''sql_statements'', PList []), (str ''scanned'', PBool False)]),
                                 (str ''y.sql'', [(str ''sql_statements'', PList [PStr (str ''INSERT INTO t VALUES (1)'')]), (str ''scanned'', PBool True)])]))"
  using save_sql_statements_self_heal [of
      "example_session (Some [(str ''x.txt'', [(str ''sql_statements'', PList []), (str ''scanned'', PBool False)])])"
      "[(str ''x.txt'', [(str ''sql_statements'', PList []), (str ''scanned'', PBool False)])]"
      "str ''y.sql''" "[PStr (str ''INSERT INTO t VALUES (1)'')]"]
  by (simp add: example_session_def save_sql_statements_def contains_def set_detail_def getitem_def setitem_def)

text \<open>
  Claim C4. Recording is idempotent: on an initialised store a second call with the same
  path and statements returns the same result and leaves the session exactly as the first
  call left it.
\<close>

theorem save_sql_statements_idempotent:
  assumes "repository_analysis st = Some ra"
  shows "\<exists>res st1. save_sql_statements p s st = Inr (res, st1) \<and>
                    save_sql_statements p s st1 = Inr (res, st1)"
proof (cases "map_of ra p")
  case None
  let ?e = "[(str ''sql_statements'', PList s), (str ''scanned'', PBool True)]"
  let ?st1 = "st\<lparr>repository_analysis := Some (ra @ [(p, ?e)])\<rparr>"
  have 1: "save_sql_statements p s st = Inr ([(str ''status'', PStr (str ''success'')), (str ''message'', PStr (str ''statement saved''))], ?st1)"
    using assms None by (rule save_absent)
  have "map_of (ra @ [(p, ?e)]) p = Some ?e" using None by (simp add: map_add_def)
  then have "save_sql_statements p s ?st1 = Inr ([(str ''status'', PStr (str ''success'')), (str ''message'', PStr (str ''statement saved''))], ?st1)"
    using None by (subst save_present [where ra = "ra @ [(p, ?e)]" and d = ?e]) (simp_all add: update_appended)
  with 1 show ?thesis by blast
next
  case (Some d)
  let ?d = "AList.update (str ''scanned'') (PBool True) (AList.update (str ''sql_statements'') (PList s) d)"
  let ?st1 = "st\<lparr>repository_analysis := Some (AList.update p ?d ra)\<rparr>"
  have 1: "save_sql_statements p s st = Inr ([(str ''status'', PStr (str ''success'')), (str ''message'', PStr (str ''statement saved''))], ?st1)"
    using assms Some by (rule save_present)
  have d: "AList.update (str ''scanned'') (PBool True) (AList.update (str ''sql_statements'') (PList s) ?d) = ?d"
    by (simp add: update_triv update_conv')
  have "map_of (AList.update p ?d ra) p = Some ?d" by (simp add: update_conv')
  then have "save_sql_statements p s ?st1 = Inr ([(str ''status'', PStr (str ''success'')), (str ''message'', PStr (str ''statement saved''))], ?st1)"
    by (subst save_present [where ra = "AList.update p ?d ra" and d = ?d]) (simp_all add: d)
  with 1 show ?thesis by blast
qed

theorem save_sql_statements_idempotent_witness:
  "save_sql_statements (str ''b.sql'') [PStr (str ''SELECT 1'')]
      (example_session (Some [(str ''b.sql'', [(str ''sql_statements'', PList []), (str ''scanned'', PBool False)])])) =
     Inr ([(str ''status'', PStr (str ''success'')), (str ''message'', PStr (str ''statement saved''))],
          example_session (Some [(str ''b.sql'', [(str ''sql_statements'', PList [PStr (str ''SELECT 1'')]), (str ''scanned'', PBool True)])])) \<and>
   save_sql_statements (str ''b.sql'') [PStr (str ''SELECT 1'')]
      (example_session (Some [(str ''b.sql'', [(str ''sql_statements'', PList [PStr (str ''SELECT 1'')]), (str ''scanned'', PBool True)])])) =
     Inr ([(str ''status'', PStr (str ''success'')), (str ''message'', PStr (str ''statement saved''))],
          example_session (Some [(str ''b.sql'', [(str ''sql_statements'', PList [PStr (str ''SELECT 1'')]), (str ''scanned'', PBool True)])]))"
  using save_sql_statements_idempotent [of
      "example_session (Some [(str ''b.sql'', [(str ''sql_statements'', PList []), (str ''scanned'', PBool False)])])"
      "[(str ''b.sql'', [(str ''sql_statements'', PList []), (str ''scanned'', PBool False)])]"
      "str ''b.sql''" "[PStr (str ''SELECT 1'')]"]
  by (simp add: example_session_def save_sql_statements_def contains_def set_detail_def getitem_def setitem_def)

subsection \<open>Marking a file as scanned\<close>

text \<open>
  Claim C5. On an initialised store, marking \<open>p\<close> as scanned succeeds. If \<open>p\<close> is present,
  its \<^verbatim>\<open>scanned\<close> field becomes true and every other field of its details, the
  statements among them, is unchanged; if \<open>p\<close> is absent, the entry
  \<^verbatim>\<open>{sql_statements: [], scanned: true}\<close> is created. The entry of every other path is
  unchanged.
\<close>

theorem mark_file_as_scanned_effect:
  assumes "repository_analysis st = Some ra"
  shows "\<exists>res ra'.
           mark_file_as_scanned p st = Inr (res, st\<lparr>repository_analysis := Some ra'\<rparr>) \<and>
           map_of res (str ''status'') = Some (PStr (str ''success'')) \<and>
           (case map_of ra p of
              Some d \<Rightarrow>
                (\<exists>d'. map_of ra' p = Some d' \<and>
                      map_of d' (str ''scanned'') = Some (PBool True) \<and>
                      map_of d' (str ''sql_statements'') = map_of d (str ''sql_statements'') \<and>
                      (\<forall>k. k \<noteq> (str ''scanned'') \<longrightarrow> map_of d' k = map_of d k))
            | None \<Rightarrow>
                map_of ra' p = Some [(str ''sql_statements'', PList []), (str ''scanned'', PBool True)]) \<and>
           (\<forall>q. q \<noteq> p \<longrightarrow> map_of ra' q = map_of ra q)"
proof (cases "map_of ra p")
  case None
  with assms show ?thesis
    by (auto simp: mark_absent map_add_def split: option.splits)
next
  case (Some d)
  let ?ra' = "AList.update p (AList.update (str ''scanned'') (PBool True) d) ra"
  have "mark_file_as_scanned p st =
          Inr ([(str ''status'', PStr (str ''success'')), (str ''message'', PStr (p @ str '' marked as scanned.''))],
               st\<lparr>repository_analysis := Some ?ra'\<rparr>)"
    using assms Some by (rule mark_present)
  moreover have "map_of ?ra' p = Some (AList.update (str ''scanned'') (PBool True) d)"
    by (simp add: update_conv')
  moreover have "\<forall>q. q \<noteq> p \<longrightarrow> map_of ?ra' q = map_of ra q"
    by (simp add: update_conv')
  ultimately show ?thesis
    using Some
    apply (rule_tac x = "[(str ''status'', PStr (str ''success'')), (str ''message'', PStr (p @ str '' marked as scanned.''))]" in exI)
    apply (rule_tac x = ?ra' in exI)
    apply (simp add: update_conv')
    done
qed

theorem mark_file_as_scanned_effect_witness:
  "mark_file_as_scanned (str ''b.sql'')
      (example_session (Some [(str ''a.py'', [(str ''sql_statements'', PList []), (str ''scanned'', PBool False)]),
                              (str ''b.sql'', [(str ''sql_statements'', PList [PStr (str ''SELECT 1'')]), (str ''scanned'', PBool False)])])) =
     Inr ([(str ''status'', PStr (str ''success'')), (str ''message'', PStr (str ''b.sql marked as scanned.''))],
          example_session (Some [(str ''a.py'', [(str ''sql_statements'', PList []), (str ''scanned'', PBool False)]),
                                 (str ''b.sql'', [(str ''sql_statements'', PList [PStr (str ''SELECT 1'')]), (str ''scanned'', PBool True)])]))"
  using mark_file_as_scanned_effect [of
      "example_session (Some [(str ''a.py'', [(str ''sql_statements'', PList []), (str ''scanned'', PBool False)]),
                              (str ''b.sql'', [(str ''sql_statements'', PList [PStr (str ''SELECT 1'')]), (str ''scanned'', PBool False)])])"
      "[(str ''a.py'', [(str ''sql_statements'', PList []), (str ''scanned'', PBool False)]),
        (str ''b.sql'', [(str ''sql_statements'', PList [PStr (str ''SELECT 1'')]), (str ''scanned'', PBool False)])]"
      "str ''b.sql''"]
  by (simp add: example_session_def mark_file_as_scanned_def contains_def set_detail_def getitem_def setitem_def)

subsection \<open>Sessions whose store was never seeded\<close>

text \<open>
  Claim C8. When \<^verbatim>\<open>repository_analysis\<close> was never set, recording, marking and the
  completion check each return a failure result that says so (no exception escapes), and the
  session is left as it was: no store is created.
\<close>

theorem uninitialised_state_fails:
  assumes "repository_analysis st = None"
  shows "save_sql_statements p s st =
           Inr ([(str ''status'', PStr (str ''failure'')),
                 (str ''message'', PStr (str ''Error: 'repository_analysis' not found in tool_context.state. Cannot save SQL statement.''))],
                st) \<and>
         mark_file_as_scanned p st =
           Inr ([(str ''status'', PStr (str ''failure'')),
                 (str ''message'', PStr (str ''Error: 'repository_analysis' not found in tool_context.state. Cannot save mark file as scanned.''))],
                st) \<and>
         are_all_files_scanned st =
           [(str ''status'', PStr (str ''failure'')),
            (str ''message'', PStr (str ''Error: 'repository_analysis' not found in tool_context.state. Cannot determine if all files were scanned.'')),
            (str ''all_files_scanned'', PBool False)]"
  using assms
  by (simp add: save_sql_statements_def mark_file_as_scanned_def are_all_files_scanned_def)

theorem uninitialised_state_fails_witness:
  "repository_analysis (example_session None) = None \<and>
   save_sql_statements (str ''a.py'') [PStr (str ''SELECT 1'')] (example_session None) =
           Inr ([(str ''status'', PStr (str ''failure'')),
                 (str ''message'', PStr (str ''Error: 'repository_analysis' not found in tool_context.state. Cannot save SQL statement.''))],
                example_session None) \<and>
   mark_file_as_scanned (str ''a.py'') (example_session None) =
           Inr ([(str ''status'', PStr (str ''failure'')),
                 (str ''message'', PStr (str ''Error: 'repository_analysis' not found in tool_context.state. Cannot save mark file as scanned.''))],
                example_session None) \<and>
   map_of (are_all_files_scanned (example_session None)) (str ''status'') = Some (PStr (str ''failure''))"
  using uninitialised_state_fails [of "example_session None" "str ''a.py''" "[PStr (str ''SELECT 1'')]"]
  by (simp add: example_session_def)

section \<open>Properties of the enumeration\<close>

subsection \<open>The walk visits the files outside \<^verbatim>\<open>.git\<close>\<close>

lemma walk_files_names: "walk_files entries = map join_names (walk_names [] entries)"
  by (simp add: walk_files_def walk_names_def relpath_def [abs_def] map_concat comp_def case_prod_unfold)

lemma prune_git_distinct: "distinct ds \<Longrightarrow> prune_git ds = filter (\<lambda>d. d \<noteq> (str ''.git'')) ds"
  by (auto simp: prune_git_def distinct_remove1_removeAll removeAll_filter_not_eq
           intro!: filter_True [symmetric] filter_cong)

lemma concat_map_concat_map:
  "concat (map h (concat (map g ds))) = concat (map (\<lambda>d. concat (map h (g d))) ds)"
  by (induction ds) auto

lemma walk_names_unfold:
  "walk_names root entries =
     map (\<lambda>file. root @ [file]) [name. (name, node) \<leftarrow> entries, \<not> isdir node] @
     concat (map (\<lambda>dirname. case map_of entries dirname of
                                Some (Dir es) \<Rightarrow> walk_names (root @ [dirname]) es
                              | _ \<Rightarrow> [])
               (prune_git [name. (name, node) \<leftarrow> entries, isdir node]))"
  apply (subst walk_names_def)
  apply (subst walk.simps)
  apply (simp add: Let_def concat_map_concat_map walk_names_def)
  apply (rule arg_cong [where f = concat])
  apply (rule map_cong [OF refl])
  apply (simp add: walk_names_def split: option.splits fsnode.splits)
  done

lemma dirs_lookup:
  assumes "distinct (map fst es)"
  shows "map (\<lambda>dirname. case map_of es dirname of Some (Dir es') \<Rightarrow> f dirname es' | _ \<Rightarrow> [])
           (filter (\<lambda>d. d \<noteq> (str ''.git'')) [name. (name, node) \<leftarrow> es, isdir node]) =
         map (\<lambda>e. case snd e of Dir es' \<Rightarrow> f (fst e) es' | _ \<Rightarrow> [])
           (filter (\<lambda>e. isdir (snd e) \<and> fst e \<noteq> (str ''.git'')) es)"
proof -
  have "\<forall>e \<in> set ys. map_of es (fst e) = Some (snd e) \<Longrightarrow>
        map (\<lambda>dirname. case map_of es dirname of Some (Dir es') \<Rightarrow> f dirname es' | _ \<Rightarrow> [])
           (filter (\<lambda>d. d \<noteq> (str ''.git'')) [name. (name, node) \<leftarrow> ys, isdir node]) =
         map (\<lambda>e. case snd e of Dir es' \<Rightarrow> f (fst e) es' | _ \<Rightarrow> [])
           (filter (\<lambda>e. isdir (snd e) \<and> fst e \<noteq> (str ''.git'')) ys)" for ys
    by (induction ys) (auto split: fsnode.splits)
  moreover have "\<forall>e \<in> set es. map_of es (fst e) = Some (snd e)"
    using assms by auto
  ultimately show ?thesis by blast
qed

lemma names_filter:
  "[name. (name, node) \<leftarrow> es, P node] = map fst (filter (\<lambda>e. P (snd e)) es)"
  by (induction es) auto

lemma dirs_distinct: "distinct (map fst es) \<Longrightarrow> distinct [name. (name, node) \<leftarrow> es, isdir node]"
  by (simp add: names_filter distinct_map_filter)

lemma walk_names_entries:
  assumes "distinct (map fst es)"
  shows "walk_names root es =
     map (\<lambda>file. root @ [file]) [name. (name, node) \<leftarrow> es, \<not> isdir node] @
     concat (map (\<lambda>e. case snd e of Dir es' \<Rightarrow> walk_names (root @ [fst e]) es' | _ \<Rightarrow> [])
               (filter (\<lambda>e. isdir (snd e) \<and> fst e \<noteq> (str ''.git'')) es))"
  by (subst walk_names_unfold)
     (simp only: prune_git_distinct [OF dirs_distinct [OF assms]] dirs_lookup [OF assms])

lemma mset_by_entries:
  assumes files: "\<And>e. e \<in> set ys \<Longrightarrow> \<not> isdir (snd e) \<Longrightarrow> mset (H e) = {#root @ [fst e]#}"
      and dirs: "\<And>e. e \<in> set ys \<Longrightarrow> isdir (snd e) \<Longrightarrow> fst e \<noteq> (str ''.git'') \<Longrightarrow> mset (H e) = mset (D e)"
      and git: "\<And>e. e \<in> set ys \<Longrightarrow> isdir (snd e) \<Longrightarrow> fst e = (str ''.git'') \<Longrightarrow> H e = []"
  shows "mset (map (\<lambda>file. root @ [file]) (map fst (filter (\<lambda>e. \<not> isdir (snd e)) ys))) +
         mset (concat (map D (filter (\<lambda>e. isdir (snd e) \<and> fst e \<noteq> (str ''.git'')) ys))) =
         mset (concat (map H ys))"
  using assms by (induction ys) auto

lemma walk_names_mset:
  "wf_node x \<Longrightarrow> x = Dir es \<Longrightarrow>
   mset (walk_names root es) = mset (map ((@) root) (listed_below x))"
proof (induction x arbitrary: es root rule: wf_node.induct)
  case (1 es0)
  then have es: "es0 = es" and dist: "distinct (map fst es)"
    and wf: "\<And>e. e \<in> set es \<Longrightarrow> wf_node (snd e)" by auto
  let ?H = "\<lambda>e. map ((@) root) (if isdir (snd e) \<and> fst e = (str ''.git'') then []
                                   else map ((#) (fst e)) (listed_below (snd e)))"
  let ?D = "\<lambda>e. case snd e of Dir es' \<Rightarrow> walk_names (root @ [fst e]) es' | _ \<Rightarrow> []"
  have "mset (map (\<lambda>file. root @ [file]) (map fst (filter (\<lambda>e. \<not> isdir (snd e)) es))) +
        mset (concat (map ?D (filter (\<lambda>e. isdir (snd e) \<and> fst e \<noteq> (str ''.git'')) es))) =
        mset (concat (map ?H es))"
  proof (rule mset_by_entries)
    fix e assume "e \<in> set es" "\<not> isdir (snd e)"
    then show "mset (?H e) = {#root @ [fst e]#}" by (cases "snd e") auto
  next
    fix e assume e: "e \<in> set es" "isdir (snd e)" "fst e \<noteq> str ''.git''"
    show "mset (?H e) = mset (?D e)"
    proof (cases "snd e")
      case (Dir es')
      have ih: "mset (walk_names (root @ [fst e]) es') = mset (map ((@) (root @ [fst e])) (listed_below (snd e)))"
      proof (rule "1.IH")
        show "e \<in> set es0" using e es by simp
        show "wf_node (snd e)" using wf e by simp
        show "snd e = Dir es'" by (rule Dir)
      qed
      have h: "?H e = map ((@) (root @ [fst e])) (listed_below (snd e))"
        using e by simp
      have "?D e = walk_names (root @ [fst e]) es'"
        using Dir by simp
      with ih h show ?thesis
        by (simp only:)
    next
      case (DirLink es')
      then show ?thesis using e by simp
    qed (use e in simp_all)
  next
    fix e assume "e \<in> set es" "isdir (snd e)" "fst e = str ''.git''"
    then show "?H e = []" by simp
  qed
  then show ?case
    using es by (simp add: walk_names_entries [OF dist] names_filter map_concat comp_def)
qed simp_all

lemma length_listed_below: "length (listed_below x) = count_listed x"
  by (induction x rule: listed_below.induct)
     (auto simp: length_concat comp_def intro!: arg_cong [where f = sum_list])

lemma count_listed_plain: "plain_tree x \<Longrightarrow> count_listed x = count_regular_files x"
  by (induction x rule: count_regular_files.induct)
     (auto intro!: arg_cong [where f = sum_list])

subsection \<open>Relative paths are distinct\<close>

lemma distinct_concat_heads:
  assumes "distinct (map fst es)"
      and "\<And>e. e \<in> set es \<Longrightarrow> distinct (F e)"
      and "\<And>e p. e \<in> set es \<Longrightarrow> p \<in> set (F e) \<Longrightarrow> p \<noteq> [] \<and> hd p = fst e"
  shows "distinct (concat (map F es))"
  using assms
proof (induction es)
  case Nil
  then show ?case by simp
next
  case (Cons e es)
  have "set (F e) \<inter> set (concat (map F es)) = {}"
  proof (rule ccontr)
    assume "set (F e) \<inter> set (concat (map F es)) \<noteq> {}"
    then obtain p e' where p: "p \<in> set (F e)" "e' \<in> set es" "p \<in> set (F e')" by auto
    then have "hd p = fst e" "hd p = fst e'" using Cons.prems(3) by auto
    then have "fst e = fst e'" by simp
    then have "fst e \<in> fst ` set es" using p(2) by (metis imageI)
    with Cons.prems(1) show False by simp
  qed
  moreover have "distinct (concat (map F es))"
  proof (rule Cons.IH)
    show "distinct (map fst es)" using Cons.prems(1) by simp
    show "distinct (F e')" if "e' \<in> set es" for e' using that Cons.prems(2) by auto
    show "p \<noteq> [] \<and> hd p = fst e'" if "e' \<in> set es" "p \<in> set (F e')" for e' p
      using that Cons.prems(3) [of e' p] by auto
  qed
  ultimately show ?case using Cons.prems(2) by simp
qed

lemma distinct_listed_below: "wf_node x \<Longrightarrow> distinct (listed_below x)"
proof (induction x rule: wf_node.induct)
  case (1 es)
  show ?case
    unfolding listed_below.simps
  proof (rule distinct_concat_heads)
    show "distinct (map fst es)" using "1.prems" by simp
  next
    fix e assume "e \<in> set es"
    then show "distinct (if isdir (snd e) \<and> fst e = (str ''.git'') then []
                         else map ((#) (fst e)) (listed_below (snd e)))"
      using 1 by (auto simp: distinct_map)
  next
    fix e p
    assume "e \<in> set es"
       and "p \<in> set (if isdir (snd e) \<and> fst e = (str ''.git'') then []
                        else map ((#) (fst e)) (listed_below (snd e)))"
    then show "p \<noteq> [] \<and> hd p = fst e" by (auto split: if_splits)
  qed
qed simp_all

lemma listed_below_names:
  "wf_node x \<Longrightarrow> p \<in> set (listed_below x) \<Longrightarrow> c \<in> set p \<Longrightarrow> 47 \<notin> set c"
proof (induction x arbitrary: p rule: wf_node.induct)
  case (1 es)
  from "1.prems"(2) obtain e q where e: "e \<in> set es" and q: "q \<in> set (listed_below (snd e))"
    and p: "p = fst e # q"
    by (auto split: if_splits)
  have wf: "47 \<notin> set (fst e)" "wf_node (snd e)"
    using "1.prems"(1) e by auto
  show ?case
  proof (cases "c = fst e")
    case True
    with wf show ?thesis by simp
  next
    case False
    with "1.prems"(3) p have "c \<in> set q" by simp
    with "1.IH" [OF e wf(2) q] show ?thesis .
  qed
qed simp_all

lemma listed_below_nonempty: "p \<in> set (listed_below (Dir es)) \<Longrightarrow> p \<noteq> []"
  by (auto split: if_splits)

lemma sep_split:
  assumes "a @ 47 # r = b @ 47 # s" and "47 \<notin> set a" and "47 \<notin> set b"
  shows "a = b \<and> r = s"
  using assms
proof (induction a arbitrary: b)
  case Nil
  then show ?case by (cases b) auto
next
  case (Cons x a)
  then show ?case by (cases b) auto
qed

lemma join_names_Cons: "ns \<noteq> [] \<Longrightarrow> join_names (n # ns) = n @ 47 # join_names ns"
  by (cases ns) (auto simp: str_slash simp del: str_append_assoc)

lemma join_names_inj:
  assumes "join_names xs = join_names ys"
      and "xs \<noteq> []" and "ys \<noteq> []"
      and "\<forall>c \<in> set xs. 47 \<notin> set c" and "\<forall>c \<in> set ys. 47 \<notin> set c"
  shows "xs = ys"
  using assms
proof (induction xs arbitrary: ys)
  case Nil
  then show ?case by simp
next
  case (Cons x xs)
  then obtain y ys' where ys: "ys = y # ys'" by (cases ys) auto
  show ?case
  proof (cases "xs = []")
    case True
    show ?thesis
    proof (cases "ys' = []")
      case True
      with \<open>xs = []\<close> Cons.prems ys show ?thesis by simp
    next
      case False
      with \<open>xs = []\<close> Cons.prems ys have "x = y @ 47 # join_names ys'"
        by (simp add: join_names_Cons)
      with Cons.prems(4) show ?thesis by auto
    qed
  next
    case False
    show ?thesis
    proof (cases "ys' = []")
      case True
      with False Cons.prems ys have "y = x @ 47 # join_names xs"
        by (simp add: join_names_Cons)
      with Cons.prems(5) ys show ?thesis by auto
    next
      case ne: False
      with False Cons.prems ys
      have "x @ 47 # join_names xs = y @ 47 # join_names ys'"
        by (simp add: join_names_Cons)
      moreover have "47 \<notin> set x" "47 \<notin> set y"
        using Cons.prems ys by auto
      ultimately have "x = y" "join_names xs = join_names ys'"
        using sep_split by blast+
      moreover have "xs = ys'"
        using Cons.IH [of ys'] \<open>join_names xs = join_names ys'\<close> False ne Cons.prems ys by auto
      ultimately show ?thesis using ys by simp
    qed
  qed
qed

subsection \<open>Seeding the store\<close>

lemma map_of_seed:
  "map_of (seed ra ps) q =
     (if q \<in> set ps then Some [(str ''sql_statements'', PList []), (str ''scanned'', PBool False)]
      else map_of ra q)"
  unfolding seed_def
  by (induction ps arbitrary: ra) (auto simp: setitem_def update_conv')

lemma keys_seed: "fst ` set (seed ra ps) = fst ` set ra \<union> set ps"
proof -
  have "dom (map_of (seed ra ps)) = dom (map_of ra) \<union> set ps"
    by (auto simp: map_of_seed dom_def split: if_splits)
  then show ?thesis by (simp add: dom_map_of_conv_image_fst)
qed

lemma seed_fresh:
  "distinct ps \<Longrightarrow> set ps \<inter> fst ` set ra = {} \<Longrightarrow>
   seed ra ps = ra @ map (\<lambda>p. (p, [(str ''sql_statements'', PList []), (str ''scanned'', PBool False)])) ps"
proof (induction ps arbitrary: ra)
  case Nil
  then show ?case by (simp add: seed_def)
next
  case (Cons p ps)
  let ?e = "[(str ''sql_statements'', PList []), (str ''scanned'', PBool False)]"
  have absent: "map_of ra p = None"
    using Cons.prems(2) by (simp add: map_of_eq_None_iff)
  have "seed ra (p # ps) = seed (ra @ [(p, ?e)]) ps"
    by (simp add: seed_def setitem_def update_absent [OF absent])
  also have "\<dots> = (ra @ [(p, ?e)]) @ map (\<lambda>p. (p, ?e)) ps"
    using Cons.prems by (intro Cons.IH) auto
  finally show ?case by simp
qed

lemma walk_files_facts:
  assumes "wf_node (Dir entries)"
  shows "length (walk_files entries) = count_listed (Dir entries)"
    and "distinct (walk_files entries)"
    and "set (walk_files entries) = join_names ` set (listed_below (Dir entries))"
proof -
  have m: "mset (walk_names [] entries) = mset (listed_below (Dir entries))"
  proof -
    have "map ((@) []) (listed_below (Dir entries)) = listed_below (Dir entries)"
      by (rule map_idI) simp
    with walk_names_mset [OF assms refl, of "[]"] show ?thesis by (simp only:)
  qed
  then have len: "length (walk_names [] entries) = length (listed_below (Dir entries))"
    by (rule mset_eq_length)
  have st: "set (walk_names [] entries) = set (listed_below (Dir entries))"
    using m by (rule mset_eq_setD)
  have di: "distinct (walk_names [] entries)"
    using m distinct_listed_below [OF assms] by (metis mset_eq_imp_distinct_iff)
  show "length (walk_files entries) = count_listed (Dir entries)"
    unfolding walk_files_names length_map len by (rule length_listed_below)
  show "set (walk_files entries) = join_names ` set (listed_below (Dir entries))"
    unfolding walk_files_names set_map st ..
  have "inj_on join_names (set (listed_below (Dir entries)))"
  proof (rule inj_onI)
    fix xs ys
    assume xs: "xs \<in> set (listed_below (Dir entries))" and ys: "ys \<in> set (listed_below (Dir entries))"
      and eq: "join_names xs = join_names ys"
    show "xs = ys"
    proof (rule join_names_inj [OF eq])
      show "xs \<noteq> []" using xs by (rule listed_below_nonempty)
      show "ys \<noteq> []" using ys by (rule listed_below_nonempty)
      show "\<forall>c \<in> set xs. 47 \<notin> set c" using listed_below_names [OF assms xs] by blast
      show "\<forall>c \<in> set ys. 47 \<notin> set c" using listed_below_names [OF assms ys] by blast
    qed
  qed
  then show "distinct (walk_files entries)"
    unfolding walk_files_names distinct_map st using di by simp
qed

lemma list_repo_files_listing:
  assumes "repo_path st = Some local_repo_path" and "fs local_repo_path = Some node"
      and "listing node = Some entries"
  shows "list_repo_files fs st =
           Inr ([(str ''status'', PStr (str ''success'')),
                 (str ''files'', PList (map PStr (walk_files entries))),
                 (str ''message'', PStr (str ''Fount '' @ str (str_nat (length (walk_files entries))) @
                                     str '' files to scan. File list stored in agent context.''))],
                st\<lparr>repository_analysis :=
                     Some (seed (case repository_analysis st of None \<Rightarrow> [] | Some ra \<Rightarrow> ra)
                             (walk_files entries))\<rparr>)"
proof -
  have "node_exists node" using assms(3) by (cases node) simp_all
  with assms show ?thesis by (simp add: list_repo_files_def Let_def)
qed

lemma list_repo_files_dir:
  assumes "repo_path st = Some local_repo_path" and "fs local_repo_path = Some (Dir entries)"
  shows "list_repo_files fs st =
           Inr ([(str ''status'', PStr (str ''success'')),
                 (str ''files'', PList (map PStr (walk_files entries))),
                 (str ''message'', PStr (str ''Fount '' @ str (str_nat (length (walk_files entries))) @
                                     str '' files to scan. File list stored in agent context.''))],
                st\<lparr>repository_analysis :=
                     Some (seed (case repository_analysis st of None \<Rightarrow> [] | Some ra \<Rightarrow> ra)
                             (walk_files entries))\<rparr>)"
  using assms list_repo_files_listing [of st local_repo_path fs "Dir entries" entries] by simp

text \<open>
  Claim C2, as amended. Let the repository root be a directory whose tree is well formed.
  Then \<^const>\<open>list_repo_files\<close> succeeds and returns, each once, the relative paths of
  exactly the \<open>N\<close> entries that are not directories and lie in no directory named
  \<^verbatim>\<open>.git\<close> and below no symbolic link: the regular files, and also the symbolic links to
  files, the dangling links and the special files, which \<^verbatim>\<open>os.walk\<close> lists with the files.
  \<open>N\<close> is the number of regular files outside \<^verbatim>\<open>.git\<close> when the tree holds only regular
  files and directories. Afterwards each of these paths has the entry
  \<^verbatim>\<open>{sql_statements: [], scanned: false}\<close> in the store, and every other path has the entry
  it had. So when the store was absent or empty or, more generally, held no key other than
  paths that the walk lists, it has exactly these \<open>N\<close> keys afterwards; from an absent or
  empty store, it is the list of these entries in the order of the walk.
\<close>

theorem list_repo_files_seeds_store:
  assumes "repo_path st = Some local_repo_path"
      and "fs local_repo_path = Some (Dir entries)"
      and "wf_node (Dir entries)"
  shows "\<exists>files ra'.
           list_repo_files fs st =
             Inr ([(str ''status'', PStr (str ''success'')),
                   (str ''files'', PList (map PStr files)),
                   (str ''message'', PStr (str ''Fount '' @ str (str_nat (length files)) @
                                       str '' files to scan. File list stored in agent context.''))],
                  st\<lparr>repository_analysis := Some ra'\<rparr>) \<and>
           length files = count_listed (Dir entries) \<and>
           (plain_tree (Dir entries) \<longrightarrow> length files = count_regular_files (Dir entries)) \<and>
           distinct files \<and>
           set files = join_names ` set (listed_below (Dir entries)) \<and>
           (\<forall>p \<in> set files.
              map_of ra' p = Some [(str ''sql_statements'', PList []), (str ''scanned'', PBool False)]) \<and>
           (\<forall>q. q \<notin> set files \<longrightarrow>
              map_of ra' q = map_of (case repository_analysis st of None \<Rightarrow> [] | Some ra \<Rightarrow> ra) q) \<and>
           (set (store_keys st) \<subseteq> set files \<longrightarrow>
              fst ` set ra' = set files \<and> card (fst ` set ra') = count_listed (Dir entries)) \<and>
           (store_keys st = [] \<longrightarrow>
              ra' = map (\<lambda>p. (p, [(str ''sql_statements'', PList []), (str ''scanned'', PBool False)])) files)"
proof -
  let ?files = "walk_files entries"
  let ?ra = "case repository_analysis st of None \<Rightarrow> [] | Some ra \<Rightarrow> ra"
  let ?ra' = "seed ?ra ?files"
  note facts = walk_files_facts [OF assms(3)]
  have sk: "set (store_keys st) = fst ` set ?ra"
    by (cases "repository_analysis st") (simp_all add: store_keys_def)
  have k: "set (store_keys st) \<subseteq> set ?files \<longrightarrow>
             fst ` set ?ra' = set ?files \<and> card (fst ` set ?ra') = count_listed (Dir entries)"
  proof
    assume "set (store_keys st) \<subseteq> set ?files"
    then have "fst ` set ?ra' = set ?files"
      unfolding sk by (auto simp: keys_seed)
    then show "fst ` set ?ra' = set ?files \<and> card (fst ` set ?ra') = count_listed (Dir entries)"
      using facts(1,2) by (simp add: distinct_card)
  qed
  have v: "\<forall>p \<in> set ?files.
             map_of ?ra' p = Some [(str ''sql_statements'', PList []), (str ''scanned'', PBool False)]"
    by (simp add: map_of_seed)
  have u: "\<forall>q. q \<notin> set ?files \<longrightarrow> map_of ?ra' q = map_of ?ra q"
    by (simp add: map_of_seed)
  have e: "store_keys st = [] \<longrightarrow>
             ?ra' = map (\<lambda>p. (p, [(str ''sql_statements'', PList []), (str ''scanned'', PBool False)])) ?files"
  proof
    assume "store_keys st = []"
    then have "?ra = []" by (simp add: store_keys_def split: option.splits)
    then show "?ra' = map (\<lambda>p. (p, [(str ''sql_statements'', PList []), (str ''scanned'', PBool False)])) ?files"
      using seed_fresh [OF facts(2), of "[]"] by simp
  qed
  have r: "plain_tree (Dir entries) \<longrightarrow> length ?files = count_regular_files (Dir entries)"
    using facts(1) count_listed_plain [of "Dir entries"] by simp
  show ?thesis
    apply (rule exI [where x = ?files])
    apply (rule exI [where x = ?ra'])
    using list_repo_files_dir [of st local_repo_path fs entries, OF assms(1,2)] facts(1) r facts(2,3) v u k e
    apply (intro conjI)
            apply assumption+
    done
qed

lemma walk_files_example:
  "walk_files example_tree = [str ''a.py'', str ''src/m.py'', str ''src/.git'', str ''src/sub/q.sql'']"
  by (simp add: walk_files_def example_tree_def walk.simps prune_git_def relpath_def Let_def)

theorem list_repo_files_seeds_store_witness:
  "repo_path (example_session None) = Some (str ''/tmp/repo_acme_shop_k3'') \<and>
   example_fs (str ''/tmp/repo_acme_shop_k3'') = Some (Dir example_tree) \<and>
   wf_node (Dir example_tree) \<and>
   store_keys (example_session None) = [] \<and>
   plain_tree (Dir example_tree) \<and>
   count_regular_files (Dir example_tree) = 4 \<and>
   list_repo_files example_fs (example_session None) =
     Inr ([(str ''status'', PStr (str ''success'')),
           (str ''files'', PList [PStr (str ''a.py''), PStr (str ''src/m.py''), PStr (str ''src/.git''), PStr (str ''src/sub/q.sql'')]),
           (str ''message'', PStr (str ''Fount 4 files to scan. File list stored in agent context.''))],
          example_session (Some
            [(str ''a.py'', [(str ''sql_statements'', PList []), (str ''scanned'', PBool False)]),
             (str ''src/m.py'', [(str ''sql_statements'', PList []), (str ''scanned'', PBool False)]),
             (str ''src/.git'', [(str ''sql_statements'', PList []), (str ''scanned'', PBool False)]),
             (str ''src/sub/q.sql'', [(str ''sql_statements'', PList []), (str ''scanned'', PBool False)])]))"
proof -
  have h1: "repo_path (example_session None) = Some (str ''/tmp/repo_acme_shop_k3'')"
    by (simp add: example_session_def)
  have h2: "example_fs (str ''/tmp/repo_acme_shop_k3'') = Some (Dir example_tree)"
    by (simp add: example_fs_def)
  have h3: "wf_node (Dir example_tree)"
    by (simp add: example_tree_def)
  have k: "store_keys (example_session None) = []"
    by (simp add: store_keys_def example_session_def)
  have c: "plain_tree (Dir example_tree)" "count_regular_files (Dir example_tree) = 4"
    by (simp_all add: example_tree_def)
  from list_repo_files_seeds_store [of "example_session None" "str ''/tmp/repo_acme_shop_k3''"
         example_fs example_tree, OF h1 h2 h3]
  obtain files ra' where
    r: "list_repo_files example_fs (example_session None) =
          Inr ([(str ''status'', PStr (str ''success'')), (str ''files'', PList (map PStr files)),
                (str ''message'', PStr (str ''Fount '' @ str (str_nat (length files)) @
                                    str '' files to scan. File list stored in agent context.''))],
               (example_session None)\<lparr>repository_analysis := Some ra'\<rparr>)"
    and e: "store_keys (example_session None) = [] \<longrightarrow>
              ra' = map (\<lambda>p. (p, [(str ''sql_statements'', PList []), (str ''scanned'', PBool False)])) files"
    by blast
  have "map PStr files = map PStr (walk_files example_tree)"
    using r list_repo_files_dir [of "example_session None" "str ''/tmp/repo_acme_shop_k3''"
              example_fs example_tree, OF h1 h2]
    by simp
  moreover have "inj PStr"
    by (simp add: inj_def)
  ultimately have "files = walk_files example_tree"
    by (simp only: inj_map_eq_map)
  then have f: "files = [str ''a.py'', str ''src/m.py'', str ''src/.git'', str ''src/sub/q.sql'']"
    by (simp only: walk_files_example)
  have "list_repo_files example_fs (example_session None) =
     Inr ([(str ''status'', PStr (str ''success'')),
           (str ''files'', PList [PStr (str ''a.py''), PStr (str ''src/m.py''), PStr (str ''src/.git''), PStr (str ''src/sub/q.sql'')]),
           (str ''message'', PStr (str ''Fount 4 files to scan. File list stored in agent context.''))],
          example_session (Some
            [(str ''a.py'', [(str ''sql_statements'', PList []), (str ''scanned'', PBool False)]),
             (str ''src/m.py'', [(str ''sql_statements'', PList []), (str ''scanned'', PBool False)]),
             (str ''src/.git'', [(str ''sql_statements'', PList []), (str ''scanned'', PBool False)]),
             (str ''src/sub/q.sql'', [(str ''sql_statements'', PList []), (str ''scanned'', PBool False)])]))"
    unfolding r using e k by (simp add: f str_nat.simps example_session_def)
  with h1 h2 h3 k c show ?thesis
    by (intro conjI)
qed

text \<open>
  The claim as it was stated fails in two ways. The walk lists every entry that is not a
  directory: the first root below holds one regular file, a FIFO and a dangling link, and
  from an absent store the enumeration leaves three entries. And without
  the condition on the store the count fails: a path recorded before the enumeration and not
  found by it stays in the store, with its \<^verbatim>\<open>scanned\<close> flag; the second root holds one
  regular file, and the store ends with two entries.
\<close>

theorem list_repo_files_count_counterexample:
  "mixed_fs (str ''/tmp/repo_acme_shop_k3'') =
     Some (Dir [(str ''x.txt'', File []), (str ''pipe'', Special), (str ''gone'', DanglingLink)]) \<and>
   count_regular_files
     (Dir [(str ''x.txt'', File []), (str ''pipe'', Special), (str ''gone'', DanglingLink)]) = 1 \<and>
   list_repo_files mixed_fs (example_session None) =
     Inr ([(str ''status'', PStr (str ''success'')),
           (str ''files'', PList [PStr (str ''x.txt''), PStr (str ''pipe''), PStr (str ''gone'')]),
           (str ''message'', PStr (str ''Fount 3 files to scan. File list stored in agent context.''))],
          example_session (Some
            [(str ''x.txt'', [(str ''sql_statements'', PList []), (str ''scanned'', PBool False)]),
             (str ''pipe'', [(str ''sql_statements'', PList []), (str ''scanned'', PBool False)]),
             (str ''gone'', [(str ''sql_statements'', PList []), (str ''scanned'', PBool False)])])) \<and>
   single_file_fs (str ''/tmp/repo_acme_shop_k3'') = Some (Dir [(str ''x.txt'', File [])]) \<and>
   count_regular_files (Dir [(str ''x.txt'', File [])]) = 1 \<and>
   save_sql_statements (str ''y.sql'') [PStr (str ''INSERT INTO t VALUES (1)'')] (example_session (Some [])) =
     Inr ([(str ''status'', PStr (str ''success'')), (str ''message'', PStr (str ''statement saved''))],
          example_session (Some
            [(str ''y.sql'', [(str ''sql_statements'', PList [PStr (str ''INSERT INTO t VALUES (1)'')]), (str ''scanned'', PBool True)])])) \<and>
   list_repo_files single_file_fs
      (example_session (Some
            [(str ''y.sql'', [(str ''sql_statements'', PList [PStr (str ''INSERT INTO t VALUES (1)'')]), (str ''scanned'', PBool True)])])) =
     Inr ([(str ''status'', PStr (str ''success'')),
           (str ''files'', PList [PStr (str ''x.txt'')]),
           (str ''message'', PStr (str ''Fount 1 files to scan. File list stored in agent context.''))],
          example_session (Some
            [(str ''y.sql'', [(str ''sql_statements'', PList [PStr (str ''INSERT INTO t VALUES (1)'')]), (str ''scanned'', PBool True)]),
             (str ''x.txt'', [(str ''sql_statements'', PList []), (str ''scanned'', PBool False)])]))"
  by (simp add: example_session_def single_file_fs_def mixed_fs_def
        save_sql_statements_def contains_def set_detail_def getitem_def
        list_repo_files_def walk_files_def walk.simps prune_git_def relpath_def Let_def
        seed_def setitem_def str_nat.simps)

section \<open>The keys of the store and the paths under the root\<close>

lemma listed_below_in_paths_below:
  "p \<in> set (listed_below x) \<Longrightarrow> p \<noteq> [] \<Longrightarrow> p \<in> set (paths_below x)"
proof (induction x arbitrary: p rule: listed_below.induct)
  case (1 es)
  from "1.prems"(1) obtain e q where e: "e \<in> set es" and q: "q \<in> set (listed_below (snd e))"
    and p: "p = fst e # q" and ng: "\<not> (isdir (snd e) \<and> fst e = str ''.git'')"
    by (auto split: if_splits)
  show ?case
  proof (cases "q = []")
    case True
    with p e show ?thesis by force
  next
    case False
    with "1.IH" [OF e ng q] have "q \<in> set (paths_below (snd e))" .
    with p e show ?thesis by force
  qed
qed simp_all

lemma listed_below_paths_below: "set (listed_below (Dir es)) \<subseteq> set (paths_below (Dir es))"
  using listed_below_in_paths_below [of _ "Dir es"] listed_below_nonempty [of _ es] by blast

lemma walk_files_existing:
  assumes "wf_node (Dir entries)"
  shows "set (walk_files entries) \<subseteq> set (existing_paths entries)"
  unfolding walk_files_facts(3) [OF assms] existing_paths_def set_map
  using listed_below_paths_below [of entries] by (rule image_mono)

lemma keys_update: "fst ` set (AList.update k v al) = insert k (fst ` set al)"
proof -
  have "dom (map_of (AList.update k v al)) = insert k (dom (map_of al))"
    by (simp add: update_conv')
  then show ?thesis by (simp only: dom_map_of_conv_image_fst)
qed

lemma save_keys:
  assumes "repository_analysis st = Some ra"
  shows "\<exists>res st'. save_sql_statements p s st = Inr (res, st') \<and>
                    set (store_keys st') = insert p (set (store_keys st)) \<and>
                    repo_path st' = repo_path st"
proof (cases "map_of ra p")
  case None
  with assms show ?thesis by (auto simp: save_absent store_keys_def)
next
  case (Some d)
  with assms show ?thesis
    by (auto simp: save_present store_keys_def keys_update)
qed

lemma mark_keys:
  assumes "repository_analysis st = Some ra"
  shows "\<exists>res st'. mark_file_as_scanned p st = Inr (res, st') \<and>
                    set (store_keys st') = insert p (set (store_keys st)) \<and>
                    repo_path st' = repo_path st"
proof (cases "map_of ra p")
  case None
  with assms show ?thesis by (auto simp: mark_absent store_keys_def)
next
  case (Some d)
  with assms show ?thesis
    by (auto simp: mark_present store_keys_def keys_update)
qed

lemma call_preserves:
  assumes root: "repo_path st = Some local_repo_path" "fs local_repo_path = Some (Dir entries)"
      and wf: "wf_node (Dir entries)"
      and inv: "set (store_keys st) \<subseteq> set (existing_paths entries)"
      and ok: "names_existing entries c"
      and res: "call fs c st = Inr (res, st')"
  shows "repo_path st' = Some local_repo_path \<and> set (store_keys st') \<subseteq> set (existing_paths entries)"
proof (cases c)
  case ListRepoFiles
  let ?ra = "case repository_analysis st of None \<Rightarrow> [] | Some ra \<Rightarrow> ra"
  have "st' = st\<lparr>repository_analysis := Some (seed ?ra (walk_files entries))\<rparr>"
    using res ListRepoFiles list_repo_files_dir [of st local_repo_path fs entries, OF root] by simp
  moreover have "fst ` set ?ra = set (store_keys st)"
    by (cases "repository_analysis st") (simp_all add: store_keys_def)
  ultimately show ?thesis
    using root(1) inv walk_files_existing [OF wf] by (simp add: store_keys_def keys_seed)
next
  case (SaveSqlStatements p s)
  show ?thesis
  proof (cases "repository_analysis st")
    case None
    with res SaveSqlStatements have "st' = st" by (simp add: save_sql_statements_def)
    with root inv show ?thesis by simp
  next
    case (Some ra)
    from save_keys [OF Some, of p s] res SaveSqlStatements
    have "set (store_keys st') = insert p (set (store_keys st))" "repo_path st' = repo_path st"
      by auto
    with root inv ok SaveSqlStatements show ?thesis by simp
  qed
next
  case (MarkFileAsScanned p)
  show ?thesis
  proof (cases "repository_analysis st")
    case None
    with res MarkFileAsScanned have "st' = st" by (simp add: mark_file_as_scanned_def)
    with root inv show ?thesis by simp
  next
    case (Some ra)
    from mark_keys [OF Some, of p] res MarkFileAsScanned
    have "set (store_keys st') = insert p (set (store_keys st))" "repo_path st' = repo_path st"
      by auto
    with root inv ok MarkFileAsScanned show ?thesis by simp
  qed
qed

lemma run_preserves:
  assumes "fs local_repo_path = Some (Dir entries)" and "wf_node (Dir entries)"
  shows "repo_path st = Some local_repo_path \<Longrightarrow>
         set (store_keys st) \<subseteq> set (existing_paths entries) \<Longrightarrow>
         \<forall>c \<in> set calls. names_existing entries c \<Longrightarrow>
         set (store_keys (run fs calls st)) \<subseteq> set (existing_paths entries)"
proof (induction calls arbitrary: st)
  case Nil
  then show ?case by simp
next
  case (Cons c calls)
  show ?case
  proof (cases "call fs c st")
    case (Inl e)
    with Cons show ?thesis by simp
  next
    case (Inr r)
    obtain res st' where r: "r = (res, st')" by (cases r)
    have "repo_path st' = Some local_repo_path \<and> set (store_keys st') \<subseteq> set (existing_paths entries)"
      using call_preserves [OF Cons.prems(1) assms(1,2) Cons.prems(2) _ Inr [unfolded r]] Cons.prems(3)
      by simp
    with Cons.IH [of st'] Cons.prems(3) Inr r show ?thesis by simp
  qed
qed

text \<open>
  Claim C7, as amended. Recording and marking add exactly the path they are given to the keys
  of an initialised store, and the enumeration adds paths of files under the root. So
  invariant I1 (every key is a path that existed under the root) is preserved by every
  sequence of calls in which recording and marking are given paths that existed under the
  root.
\<close>

theorem store_keys_existing_preserved:
  assumes "repo_path st = Some local_repo_path"
      and "fs local_repo_path = Some (Dir entries)"
      and "wf_node (Dir entries)"
      and "set (store_keys st) \<subseteq> set (existing_paths entries)"
      and "\<forall>c \<in> set calls. names_existing entries c"
  shows "set (store_keys (run fs calls st)) \<subseteq> set (existing_paths entries) \<and>
         (\<forall>p s. repository_analysis st \<noteq> None \<longrightarrow>
            set (store_keys (run fs [SaveSqlStatements p s] st)) = insert p (set (store_keys st)) \<and>
            set (store_keys (run fs [MarkFileAsScanned p] st)) = insert p (set (store_keys st)))"
proof
  show "set (store_keys (run fs calls st)) \<subseteq> set (existing_paths entries)"
    using assms(2,3,1,4,5) by (rule run_preserves)
next
  show "\<forall>p s. repository_analysis st \<noteq> None \<longrightarrow>
            set (store_keys (run fs [SaveSqlStatements p s] st)) = insert p (set (store_keys st)) \<and>
            set (store_keys (run fs [MarkFileAsScanned p] st)) = insert p (set (store_keys st))"
  proof (intro allI impI)
    fix p s assume "repository_analysis st \<noteq> None"
    then obtain ra where ra: "repository_analysis st = Some ra" by auto
    from save_keys [OF ra, of p s] obtain res1 st1
      where 1: "save_sql_statements p s st = Inr (res1, st1)"
        and k1: "set (store_keys st1) = insert p (set (store_keys st))" by blast
    from mark_keys [OF ra, of p] obtain res2 st2
      where 2: "mark_file_as_scanned p st = Inr (res2, st2)"
        and k2: "set (store_keys st2) = insert p (set (store_keys st))" by blast
    have "run fs [SaveSqlStatements p s] st = st1" using 1 by simp
    moreover have "run fs [MarkFileAsScanned p] st = st2" using 2 by simp
    ultimately
    show "set (store_keys (run fs [SaveSqlStatements p s] st)) = insert p (set (store_keys st)) \<and>
          set (store_keys (run fs [MarkFileAsScanned p] st)) = insert p (set (store_keys st))"
      using k1 k2 by simp
  qed
qed

text \<open>The example tree, evaluated.\<close>

lemma existing_paths_example:
  "existing_paths example_tree =
     [str ''a.py'', str ''.git'', str ''.git/HEAD'', str ''src'', str ''src/m.py'', str ''src/.git'', str ''src/sub'', str ''src/sub/q.sql'']"
  by (simp add: existing_paths_def example_tree_def)

lemma list_repo_files_example:
  "list_repo_files example_fs (example_session (Some [])) =
     Inr ([(str ''status'', PStr (str ''success'')),
           (str ''files'', PList [PStr (str ''a.py''), PStr (str ''src/m.py''), PStr (str ''src/.git''), PStr (str ''src/sub/q.sql'')]),
           (str ''message'', PStr (str ''Fount 4 files to scan. File list stored in agent context.''))],
          example_session (Some
            [(str ''a.py'', [(str ''sql_statements'', PList []), (str ''scanned'', PBool False)]),
             (str ''src/m.py'', [(str ''sql_statements'', PList []), (str ''scanned'', PBool False)]),
             (str ''src/.git'', [(str ''sql_statements'', PList []), (str ''scanned'', PBool False)]),
             (str ''src/sub/q.sql'', [(str ''sql_statements'', PList []), (str ''scanned'', PBool False)])]))"
  by (simp add: list_repo_files_def example_fs_def example_session_def walk_files_example
        seed_def setitem_def str_nat.simps)

text \<open>
  Invariant I1 does not hold in every reachable state: recording statements for a path that
  never existed under the root adds that path to the store (the self-healing insert).
\<close>

theorem self_heal_adds_unknown_path_counterexample:
  "store_keys (run example_fs
       [ListRepoFiles, SaveSqlStatements (str ''y.sql'') [PStr (str ''INSERT INTO t VALUES (1)'')]]
       (example_session (Some []))) =
     [str ''a.py'', str ''src/m.py'', str ''src/.git'', str ''src/sub/q.sql'', str ''y.sql''] \<and>
   str ''y.sql'' \<notin> set (existing_paths example_tree)"
proof -
  have "run example_fs
          [ListRepoFiles, SaveSqlStatements (str ''y.sql'') [PStr (str ''INSERT INTO t VALUES (1)'')]]
          (example_session (Some [])) =
        example_session (Some
            [(str ''a.py'', [(str ''sql_statements'', PList []), (str ''scanned'', PBool False)]),
             (str ''src/m.py'', [(str ''sql_statements'', PList []), (str ''scanned'', PBool False)]),
             (str ''src/.git'', [(str ''sql_statements'', PList []), (str ''scanned'', PBool False)]),
             (str ''src/sub/q.sql'', [(str ''sql_statements'', PList []), (str ''scanned'', PBool False)]),
             (str ''y.sql'', [(str ''sql_statements'', PList [PStr (str ''INSERT INTO t VALUES (1)'')]),
                          (str ''scanned'', PBool True)])])"
    apply (simp add: list_repo_files_example)
    apply (simp add: example_session_def save_sql_statements_def contains_def set_detail_def
             getitem_def setitem_def)
    done
  then show ?thesis
    by (simp add: existing_paths_example store_keys_def example_session_def)
qed

theorem store_keys_existing_preserved_witness:
  "repo_path (example_session (Some [])) = Some (str ''/tmp/repo_acme_shop_k3'') \<and>
   example_fs (str ''/tmp/repo_acme_shop_k3'') = Some (Dir example_tree) \<and>
   wf_node (Dir example_tree) \<and>
   store_keys (example_session (Some [])) = [] \<and>
   names_existing example_tree (SaveSqlStatements (str ''src/m.py'') [PStr (str ''SELECT 1'')]) \<and>
   names_existing example_tree (MarkFileAsScanned (str ''a.py'')) \<and>
   set (store_keys (run example_fs
          [ListRepoFiles, SaveSqlStatements (str ''src/m.py'') [PStr (str ''SELECT 1'')], MarkFileAsScanned (str ''a.py'')]
          (example_session (Some []))))
     \<subseteq> set (existing_paths example_tree)"
proof -
  have h1: "repo_path (example_session (Some [])) = Some (str ''/tmp/repo_acme_shop_k3'')"
    by (simp add: example_session_def)
  have h2: "example_fs (str ''/tmp/repo_acme_shop_k3'') = Some (Dir example_tree)"
    by (simp add: example_fs_def)
  have h3: "wf_node (Dir example_tree)"
    by (simp add: example_tree_def)
  have k: "store_keys (example_session (Some [])) = []"
    by (simp add: store_keys_def example_session_def)
  then have h4: "set (store_keys (example_session (Some []))) \<subseteq> set (existing_paths example_tree)"
    by simp
  have n1: "names_existing example_tree (SaveSqlStatements (str ''src/m.py'') [PStr (str ''SELECT 1'')])"
    by (simp add: existing_paths_example)
  have n2: "names_existing example_tree (MarkFileAsScanned (str ''a.py''))"
    by (simp add: existing_paths_example)
  have h5: "\<forall>c \<in> set [ListRepoFiles, SaveSqlStatements (str ''src/m.py'') [PStr (str ''SELECT 1'')],
                         MarkFileAsScanned (str ''a.py'')]. names_existing example_tree c"
    using n1 n2 by simp
  from store_keys_existing_preserved [of "example_session (Some [])" "str ''/tmp/repo_acme_shop_k3''"
         example_fs example_tree
         "[ListRepoFiles, SaveSqlStatements (str ''src/m.py'') [PStr (str ''SELECT 1'')], MarkFileAsScanned (str ''a.py'')]",
         OF h1 h2 h3 h4 h5]
  have "set (store_keys (run example_fs
          [ListRepoFiles, SaveSqlStatements (str ''src/m.py'') [PStr (str ''SELECT 1'')], MarkFileAsScanned (str ''a.py'')]
          (example_session (Some []))))
     \<subseteq> set (existing_paths example_tree)"
    by (rule conjunct1)
  with h1 h2 h3 k n1 n2 show ?thesis
    by (intro conjI)
qed

section \<open>Properties of the exporter\<close>

subsection \<open>Escaped strings are read back\<close>









subsection \<open>Surrogate pairs\<close>








subsection \<open>The record of a tracked file\<close>

lemma then_write_simps [simp]:
  "then_write (t, None) w = (t @ fst w, snd w)"
  "then_write (t, Some e) w = (t, Some e)"
  by (simp_all add: then_write_def)






subsection \<open>Reading the record back\<close>

lemma expect_simps [simp]:
  "expect '']'' (encode_str s @ rest) = None"
  "expect '']'' (CHR '','' # rest) = None"
  "expect '','' (CHR '','' # rest) = Some rest"
  "expect '']'' (CHR '']'' # rest) = Some rest"
  "expect ''['' (CHR ''['' # rest) = Some rest"
  "expect ''{'' (CHR ''{'' # rest) = Some rest"
  "expect ''}'' (CHR ''}'' # rest) = Some rest"
  "expect '':'' (CHR '':'' # rest) = Some rest"
  by (simp_all add: expect_def encode_str_def)







subsection \<open>A record is one line\<close>














subsection \<open>The artifact\<close>













section \<open>The stores the tools build hold tracked files\<close>

text \<open>
  The exporter's artifact is read back for stores of tracked files. Every store that the
  enumeration, recording of string lists and marking build from an empty or absent store is
  one.
\<close>

lemma set_update: "set (AList.update k v al) \<subseteq> insert (k, v) (set al)"
  by (induction al) auto

lemma tracked_seed:
  assumes "\<forall>e \<in> set ra. tracked_file (snd e)"
  shows "\<forall>e \<in> set (seed ra ps). tracked_file (snd e)"
  using assms unfolding seed_def
proof (induction ps arbitrary: ra)
  case Nil
  then show ?case by simp
next
  case (Cons p ps)
  have "\<forall>e \<in> set (setitem ra p [(str ''sql_statements'', PList []), (str ''scanned'', PBool False)]).
          tracked_file (snd e)"
    using Cons.prems set_update [of p _ ra] by (fastforce simp: setitem_def)
  then show ?case using Cons.IH by simp
qed

lemma tracked_updated:
  assumes "tracked_file d"
  shows "tracked_file (AList.update (str ''scanned'') (PBool True) d)"
    and "list_all is_str s \<Longrightarrow>
         tracked_file (AList.update (str ''scanned'') (PBool True)
                        (AList.update (str ''sql_statements'') (PList s) d))"
  using assms by (induction d rule: tracked_file.induct) auto

lemma call_tracked:
  assumes "\<forall>e \<in> set (case repository_analysis st of None \<Rightarrow> [] | Some ra \<Rightarrow> ra). tracked_file (snd e)"
      and "strings_recorded c"
      and "call fs c st = Inr (res, st')"
  shows "\<forall>e \<in> set (case repository_analysis st' of None \<Rightarrow> [] | Some ra \<Rightarrow> ra). tracked_file (snd e)"
proof (cases c)
  case ListRepoFiles
  show ?thesis
  proof (cases "\<exists>p node entries. repo_path st = Some p \<and> fs p = Some node \<and> listing node = Some entries")
    case True
    then obtain p node entries
      where "repo_path st = Some p" "fs p = Some node" "listing node = Some entries" by blast
    from list_repo_files_listing [of st p fs node entries, OF this] assms(3) ListRepoFiles
    have "repository_analysis st' =
            Some (seed (case repository_analysis st of None \<Rightarrow> [] | Some ra \<Rightarrow> ra) (walk_files entries))"
      by auto
    with tracked_seed [OF assms(1)] show ?thesis by simp
  next
    case False
    with assms(3) ListRepoFiles have "st' = st"
      by (auto simp: list_repo_files_def split: option.splits if_splits)
    with assms(1) show ?thesis by simp
  qed
next
  case (SaveSqlStatements p s)
  show ?thesis
  proof (cases "repository_analysis st")
    case None
    with assms(3) SaveSqlStatements have "st' = st" by (simp add: save_sql_statements_def)
    with assms(1) show ?thesis by simp
  next
    case (Some ra)
    from assms(2) SaveSqlStatements have s: "list_all is_str s" by simp
    show ?thesis
    proof (cases "map_of ra p")
      case None
      with Some assms SaveSqlStatements s show ?thesis
        by (fastforce simp: save_absent)
    next
      case d: (Some d)
      then have "(p, d) \<in> set ra" by (rule map_of_SomeD)
      with assms(1) Some have "tracked_file d" by auto
      from tracked_updated(2) [OF this s] Some d assms SaveSqlStatements
        set_update [of p _ ra]
      show ?thesis
        by (fastforce simp: save_present)
    qed
  qed
next
  case (MarkFileAsScanned p)
  show ?thesis
  proof (cases "repository_analysis st")
    case None
    with assms(3) MarkFileAsScanned have "st' = st" by (simp add: mark_file_as_scanned_def)
    with assms(1) show ?thesis by simp
  next
    case (Some ra)
    show ?thesis
    proof (cases "map_of ra p")
      case None
      with Some assms MarkFileAsScanned show ?thesis
        by (fastforce simp: mark_absent)
    next
      case d: (Some d)
      then have "(p, d) \<in> set ra" by (rule map_of_SomeD)
      with assms(1) Some have "tracked_file d" by auto
      from tracked_updated(1) [OF this] Some d assms MarkFileAsScanned
        set_update [of p _ ra]
      show ?thesis
        by (fastforce simp: mark_present)
    qed
  qed
qed

lemma run_tracked:
  "\<forall>e \<in> set (case repository_analysis st of None \<Rightarrow> [] | Some ra \<Rightarrow> ra). tracked_file (snd e) \<Longrightarrow>
   \<forall>c \<in> set calls. strings_recorded c \<Longrightarrow>
   \<forall>e \<in> set (case repository_analysis (run fs calls st) of None \<Rightarrow> [] | Some ra \<Rightarrow> ra).
      tracked_file (snd e)"
proof (induction calls arbitrary: st)
  case Nil
  then show ?case by simp
next
  case (Cons c calls)
  show ?case
  proof (cases "call fs c st")
    case (Inl e)
    with Cons show ?thesis by simp
  next
    case (Inr r)
    obtain res st' where r: "r = (res, st')" by (cases r)
    have "\<forall>e \<in> set (case repository_analysis st' of None \<Rightarrow> [] | Some ra \<Rightarrow> ra). tracked_file (snd e)"
      using call_tracked [OF Cons.prems(1) _ Inr [unfolded r]] Cons.prems(2) by simp
    with Cons.IH [of st'] Cons.prems(2) Inr r show ?thesis by simp
  qed
qed

section \<open>Properties of the content reader\<close>

lemma decode_one_pos: "0 < snd (decode_one bs)"
  by (cases bs) (simp_all split: list.splits)

lemma utf8_decode_step:
  assumes "decode_one (b # bs) = (x, n)"
  shows "utf8_decode h (b # bs) =
           (case x of
              Some c \<Rightarrow> prepend c (utf8_decode h (drop n (b # bs)))
            | None \<Rightarrow>
                (case h of
                   Strict \<Rightarrow> Inl (str ''utf-8 codec can't decode bytes'')
                 | Ignore \<Rightarrow> utf8_decode h (drop n (b # bs))
                 | Replace \<Rightarrow> prepend 0xFFFD (utf8_decode h (drop n (b # bs)))))"
  using assms by (simp del: decode_one.simps split: option.splits)

lemma decode_handlers:
  "\<exists>ign rep.
     utf8_decode Ignore bs = Inr ign \<and> utf8_decode Replace bs = Inr rep \<and> subseq ign rep \<and>
     (case utf8_decode Strict bs of
        Inr t \<Rightarrow> ign = t \<and> rep = t
      | Inl e \<Rightarrow> length ign < length rep)"
proof (induction bs rule: length_induct)
  case (1 bs)
  show ?case
  proof (cases bs)
    case Nil
    then show ?thesis by simp
  next
    case (Cons b bs')
    obtain x n where d: "decode_one (b # bs') = (x, n)" by fastforce
    have "0 < n" using decode_one_pos [of "b # bs'"] d by simp
    then have "length (drop n (b # bs')) < length bs" using Cons by simp
    with 1 obtain ign rep where ih:
      "utf8_decode Ignore (drop n (b # bs')) = Inr ign"
      "utf8_decode Replace (drop n (b # bs')) = Inr rep"
      "subseq ign rep"
      "case utf8_decode Strict (drop n (b # bs')) of
         Inr t \<Rightarrow> ign = t \<and> rep = t | Inl e \<Rightarrow> length ign < length rep"
      by blast
    note step = utf8_decode_step [OF d]
    show ?thesis
    proof (cases x)
      case None
      have "length ign \<le> length rep" using ih(3) by (rule list_emb_length)
      moreover have "subseq ign (0xFFFD # rep)" using ih(3) by (rule list_emb_Cons)
      ultimately show ?thesis
        using ih(1,2,3) None unfolding Cons step
        by (simp add: prepend_def)
    next
      case (Some c)
      show ?thesis
        using ih Some unfolding Cons step
        by (cases "utf8_decode Strict (drop n (b # bs'))") (simp_all add: prepend_def)
    qed
  qed
qed

text \<open>
  Claim C9, as amended. Let the path name a regular file, or a symbolic link to one, that is
  opened and read without an exception. Whether its bytes are valid UTF-8 or not,
  \<^const>\<open>get_file_content\<close> succeeds. Undecodable bytes are dropped, not substituted: the
  content is the text that decoding with \<^verbatim>\<open>errors='ignore'\<close> gives, with \<^verbatim>\<open>\r\n\<close> and
  \<^verbatim>\<open>\r\<close> translated to \<^verbatim>\<open>\n\<close> as text mode does. The text decoded is the strict decoding
  when the file is valid, and otherwise it is a subsequence of the text that substitution by
  U+FFFD would give, and strictly shorter. When opening or reading the file raises, the
  result is a failure.
\<close>

theorem get_file_content_ignores_undecodable:
  assumes "repo_path st = Some local_repo_path" and "local_repo_path \<noteq> []"
      and "fs (os_path_join local_repo_path relative_file_path) = Some node"
      and "contents node = Some bytes"
  shows "\<exists>decoded rep.
           get_file_content fs None relative_file_path st =
             [(str ''status'', PStr (str ''success'')),
              (str ''message'', PStr (str ''Successfully read file content.'')),
              (str ''content'', PStr (universal_newlines decoded))] \<and>
           utf8_decode Ignore bytes = Inr decoded \<and>
           utf8_decode Replace bytes = Inr rep \<and>
           subseq decoded rep \<and>
           (case utf8_decode Strict bytes of
              Inr t \<Rightarrow> decoded = t
            | Inl e \<Rightarrow> length decoded < length rep) \<and>
           (\<forall>e. get_file_content fs (Some e) relative_file_path st =
                  [(str ''status'', PStr (str ''failure'')),
                   (str ''message'', PStr (str ''Error reading file '' @
                      os_path_join local_repo_path relative_file_path @ str '': '' @ e))])"
proof -
  from decode_handlers [of bytes] obtain cps rep where
    d: "utf8_decode Ignore bytes = Inr cps" "utf8_decode Replace bytes = Inr rep" "subseq cps rep"
       "case utf8_decode Strict bytes of Inr t \<Rightarrow> cps = t \<and> rep = t | Inl e \<Rightarrow> length cps < length rep"
    by blast
  have ex: "node_exists node"
    using assms(4) by (cases node) simp_all
  have "get_file_content fs None relative_file_path st =
          [(str ''status'', PStr (str ''success'')),
           (str ''message'', PStr (str ''Successfully read file content.'')),
           (str ''content'', PStr (universal_newlines cps))]"
    using assms ex d(1) by (simp add: get_file_content_def Let_def)
  moreover have "case utf8_decode Strict bytes of Inr t \<Rightarrow> cps = t | Inl e \<Rightarrow> length cps < length rep"
    using d(4) by (cases "utf8_decode Strict bytes") simp_all
  moreover have "\<forall>e. get_file_content fs (Some e) relative_file_path st =
                  [(str ''status'', PStr (str ''failure'')),
                   (str ''message'', PStr (str ''Error reading file '' @
                      os_path_join local_repo_path relative_file_path @ str '': '' @ e))]"
    using assms ex by (simp add: get_file_content_def Let_def)
  ultimately show ?thesis
    using d(1,2,3) by blast
qed

lemma decode_example:
  "utf8_decode Ignore [0x61, 0xFF, 0x62] = Inr [0x61, 0x62]"
  "utf8_decode Replace [0x61, 0xFF, 0x62] = Inr [0x61, 0xFFFD, 0x62]"
  "utf8_decode Strict [0x61, 0xFF, 0x62] = Inl (str ''utf-8 codec can't decode bytes'')"
  by (simp_all add: prepend_def)

theorem get_file_content_ignores_undecodable_witness:
  "repo_path (example_session None) = Some (str ''/tmp/repo_acme_shop_k3'') \<and>
   example_bytes_fs (os_path_join (str ''/tmp/repo_acme_shop_k3'') (str ''dos.txt'')) =
     Some (File [0x61, 0xFF, 0x0D, 0x0A, 0x62]) \<and>
   contents (File [0x61, 0xFF, 0x0D, 0x0A, 0x62]) = Some [0x61, 0xFF, 0x0D, 0x0A, 0x62] \<and>
   get_file_content example_bytes_fs None (str ''dos.txt'') (example_session None) =
     [(str ''status'', PStr (str ''success'')),
      (str ''message'', PStr (str ''Successfully read file content.'')),
      (str ''content'', PStr [0x61, 0x0A, 0x62])] \<and>
   get_file_content example_bytes_fs (Some (str ''[Errno 13] Permission denied'')) (str ''dos.txt'')
       (example_session None) =
     [(str ''status'', PStr (str ''failure'')),
      (str ''message'', PStr (str ''Error reading file /tmp/repo_acme_shop_k3/dos.txt: [Errno 13] Permission denied''))]"
proof -
  have h1: "repo_path (example_session None) = Some (str ''/tmp/repo_acme_shop_k3'')"
    by (simp add: example_session_def)
  have h2: "str ''/tmp/repo_acme_shop_k3'' \<noteq> []" by simp
  have p: "os_path_join (str ''/tmp/repo_acme_shop_k3'') (str ''dos.txt'') =
             str ''/tmp/repo_acme_shop_k3/dos.txt''"
    by (simp add: os_path_join_def str_Cons)
  have h3: "example_bytes_fs (os_path_join (str ''/tmp/repo_acme_shop_k3'') (str ''dos.txt'')) =
              Some (File [0x61, 0xFF, 0x0D, 0x0A, 0x62])"
    by (simp add: example_bytes_fs_def p)
  have h4: "contents (File [0x61, 0xFF, 0x0D, 0x0A, 0x62]) = Some [0x61, 0xFF, 0x0D, 0x0A, 0x62]"
    by simp
  from get_file_content_ignores_undecodable [of "example_session None" "str ''/tmp/repo_acme_shop_k3''"
         example_bytes_fs "str ''dos.txt''" "File [0x61, 0xFF, 0x0D, 0x0A, 0x62]"
         "[0x61, 0xFF, 0x0D, 0x0A, 0x62]", OF h1 h2 h3 h4]
  obtain cps where
    g: "get_file_content example_bytes_fs None (str ''dos.txt'') (example_session None) =
          [(str ''status'', PStr (str ''success'')),
           (str ''message'', PStr (str ''Successfully read file content.'')),
           (str ''content'', PStr (universal_newlines cps))]"
    and t: "utf8_decode Ignore [0x61, 0xFF, 0x0D, 0x0A, 0x62] = Inr cps"
    and f: "\<forall>e. get_file_content example_bytes_fs (Some e) (str ''dos.txt'') (example_session None) =
                  [(str ''status'', PStr (str ''failure'')),
                   (str ''message'', PStr (str ''Error reading file '' @
                      os_path_join (str ''/tmp/repo_acme_shop_k3'') (str ''dos.txt'') @ str '': '' @ e))]"
    by blast
  from t have "cps = [0x61, 0x0D, 0x0A, 0x62]" by (simp add: prepend_def)
  with g h1 h3 h4 f show ?thesis by (simp add: p)
qed

text \<open>
  The bytes below are not valid UTF-8, and nothing is substituted for the byte \<^verbatim>\<open>0xFF\<close>:
  the content has the two code points of \<^verbatim>\<open>a\<close> and \<^verbatim>\<open>b\<close>, where substitution would give
  three.
\<close>

theorem get_file_content_no_substitution_counterexample:
  "utf8_decode Strict [0x61, 0xFF, 0x62] = Inl (str ''utf-8 codec can't decode bytes'') \<and>
   get_file_content example_bytes_fs None (str ''notes.txt'') (example_session None) =
     [(str ''status'', PStr (str ''success'')),
      (str ''message'', PStr (str ''Successfully read file content.'')),
      (str ''content'', PStr [0x61, 0x62])] \<and>
   utf8_decode Replace [0x61, 0xFF, 0x62] = Inr [0x61, 0xFFFD, 0x62]"
  by (simp add: decode_example get_file_content_def example_session_def example_bytes_fs_def
        os_path_join_def prepend_def str_Cons)

end
